theory Spec2Isabelle
  imports Main "HOL-Library.Word"
begin

unbundle bit_operations_syntax

section \<open>Production classifier (src/production-classifier.h)\<close>

text \<open>
  \<^verbatim>\<open>enum TargetProduction\<close>: one bit per production. Sets of productions are
  \<^verbatim>\<open>unsigned\<close> bit masks, modelled as 32-bit words.
\<close>

type_synonym productions = "32 word"

definition ExpressionProduction :: productions where
  "ExpressionProduction = push_bit 0 1"

definition BindingPatternProduction :: productions where
  "BindingPatternProduction = push_bit 1 1"

definition AssignmentPatternProduction :: productions where
  "AssignmentPatternProduction = push_bit 2 1"

definition DistinctFormalParametersProduction :: productions where
  "DistinctFormalParametersProduction = push_bit 3 1"

definition StrictModeFormalParametersProduction :: productions where
  "StrictModeFormalParametersProduction = push_bit 4 1"

definition StrongModeFormalParametersProduction :: productions where
  "StrongModeFormalParametersProduction = push_bit 5 1"

definition ArrowFormalParametersProduction :: productions where
  "ArrowFormalParametersProduction = push_bit 6 1"

definition PatternProductions :: productions where
  "PatternProductions = BindingPatternProduction OR AssignmentPatternProduction"

definition FormalParametersProductions :: productions where
  "FormalParametersProductions =
     DistinctFormalParametersProduction OR StrictModeFormalParametersProduction
       OR StrongModeFormalParametersProduction"

definition StandardProductions :: productions where
  "StandardProductions = ExpressionProduction OR PatternProductions"

definition AllProductions :: productions where
  "AllProductions =
     StandardProductions OR FormalParametersProductions OR ArrowFormalParametersProduction"

text \<open>
  \<^verbatim>\<open>class Error\<close>: a source location (begin and end position), a message template
  (an enumeration value) and an optional argument string.
\<close>

datatype Error = Error (location: "int \<times> int") (message: nat) (arg: "string option")

text \<open>
  \<^verbatim>\<open>class BufferElement\<close>: a tagged union. Both kinds carry the set of invalidated
  productions; a leaf carries the error, a skip the number of entries of the scope it closes.
\<close>

datatype BufferElement =
    Leaf productions Error
  | Skip productions nat

fun is_leaf :: "BufferElement \<Rightarrow> bool" where
  "is_leaf (Leaf _ _) = True"
| "is_leaf (Skip _ _) = False"

fun elt_invalid_productions :: "BufferElement \<Rightarrow> productions" where
  "elt_invalid_productions (Leaf p _) = p"
| "elt_invalid_productions (Skip p _) = p"

fun skip :: "BufferElement \<Rightarrow> nat" where
  "skip (Leaf _ _) = 0"
| "skip (Skip _ n) = n"

text \<open>
  \<^verbatim>\<open>class Cursor\<close>: the log length at creation and the productions invalidated in the
  scope. The pointer to the classifier is replaced by passing the classifier's buffer.
\<close>

record Cursor =
  start :: nat
  invalid_productions :: productions

text \<open>
  What stops a run: a \<^verbatim>\<open>CHECK\<close> that fails (all builds); a \<^verbatim>\<open>DCHECK\<close> or \<^verbatim>\<open>ASSERT\<close> that
  fails and an \<^verbatim>\<open>UNREACHABLE()\<close> that is reached (debug builds only: the release build
  compiles them to nothing, and the statements after both \<^verbatim>\<open>UNREACHABLE()\<close> of the codec
  are its way on); and a read outside a buffer or of uninitialised memory, which the
  release build does not check and C++ leaves undefined. Every function that depends on the
  build takes it as its first argument \<open>debug\<close>.
\<close>

datatype failure =
    CheckFailed
  | AssertFailed
  | UnreachableFirstTokenAscii
  | UnreachableNarrowUtf16
  | OutOfBounds

definition push :: "BufferElement list \<Rightarrow> Cursor" where
  "push buffer = \<lparr>start = length buffer, invalid_productions = 0\<rparr>"

definition is_valid :: "Cursor \<Rightarrow> productions \<Rightarrow> bool" where
  "is_valid c production \<longleftrightarrow> invalid_productions c AND production = 0"

definition is_valid_binding_pattern :: "Cursor \<Rightarrow> bool" where
  "is_valid_binding_pattern c = is_valid c BindingPatternProduction"

definition is_valid_arrow_formal_parameters :: "Cursor \<Rightarrow> bool" where
  "is_valid_arrow_formal_parameters c = is_valid c ArrowFormalParametersProduction"

definition Accumulate :: "Cursor \<Rightarrow> Cursor \<Rightarrow> productions \<Rightarrow> Cursor" where
  "Accumulate outer inner prods =
     (if invalid_productions inner = 0 then outer
      else
        let non_arrow_inner_invalid_productions =
              invalid_productions inner AND NOT ArrowFormalParametersProduction;
            non_arrow_productions = prods AND NOT ArrowFormalParametersProduction;
            errors = non_arrow_productions AND non_arrow_inner_invalid_productions;
            outer1 = outer\<lparr>invalid_productions := invalid_productions outer OR errors\<rparr>
        in if prods AND ArrowFormalParametersProduction \<noteq> 0
              \<and> \<not> is_valid_binding_pattern inner
           then outer1\<lparr>invalid_productions :=
                  invalid_productions outer1 OR ArrowFormalParametersProduction\<rparr>
           else outer1)"

definition RecordError ::
  "productions \<Rightarrow> Error \<Rightarrow> Cursor \<times> BufferElement list \<Rightarrow> Cursor \<times> BufferElement list" where
  "RecordError production err cb =
     (case cb of (c, buffer) \<Rightarrow>
        if \<not> is_valid c production then (c, buffer)
        else (c\<lparr>invalid_productions := invalid_productions c OR production\<rparr>,
              buffer @ [Leaf production err]))"

text \<open>
  The loop of \<^verbatim>\<open>FindError\<close>, on the index \<^verbatim>\<open>end\<close>. \<^verbatim>\<open>DCHECK(end > 0)\<close> and
  \<^verbatim>\<open>DCHECK(elt.skip() <= idx)\<close> stop the debug build. The release build computes
  \<^verbatim>\<open>end - 1\<close> and \<^verbatim>\<open>idx - elt.skip()\<close> on \<^verbatim>\<open>size_t\<close>, where they wrap around to an
  index beyond the buffer, and reads there.
\<close>

function FindError_loop ::
  "bool \<Rightarrow> BufferElement list \<Rightarrow> productions \<Rightarrow> nat \<Rightarrow> failure + Error" where
  "FindError_loop debug buffer production end' =
     (if end' = 0 then Inl (if debug then AssertFailed else OutOfBounds)
      else
        let idx = end' - 1 in
        if length buffer \<le> idx then Inl OutOfBounds
        else
          let elt = buffer ! idx in
          if elt_invalid_productions elt AND production = 0 then
            if debug \<and> idx < skip elt then Inl AssertFailed
            else if production = ArrowFormalParametersProduction
                    \<and> elt_invalid_productions elt AND BindingPatternProduction \<noteq> 0
            then FindError_loop debug buffer production idx
            else if idx < skip elt then Inl OutOfBounds
            else FindError_loop debug buffer production (idx - skip elt)
          else if is_leaf elt then
            (case elt of Leaf _ err \<Rightarrow> Inr err | Skip _ _ \<Rightarrow> Inl AssertFailed)
          else FindError_loop debug buffer production idx)"
  by pat_completeness auto
termination
  by (relation "measure (\<lambda>(debug, buffer, production, end'). end')") auto

declare FindError_loop.simps [simp del]

definition FindError ::
  "bool \<Rightarrow> Cursor \<Rightarrow> BufferElement list \<Rightarrow> productions \<Rightarrow> failure + Error" where
  "FindError debug c buffer production =
     (if is_valid c production then Inl CheckFailed
      else FindError_loop debug buffer production (length buffer))"

text \<open>
  \<^verbatim>\<open>pop\<close>, called by the cursor's destructor. \<^verbatim>\<open>buffer_.resize(start)\<close> with
  \<^verbatim>\<open>start\<close> below the size truncates the log. With a log shorter than \<^verbatim>\<open>start\<close>, which
  \<^verbatim>\<open>DCHECK(buffer_.size() >= cursor.start())\<close> excludes in the debug build, the release
  build would extend the log by uninitialised entries or compute the skip below zero; the
  model stops there.
\<close>

definition pop :: "bool \<Rightarrow> Cursor \<Rightarrow> BufferElement list \<Rightarrow> failure + BufferElement list" where
  "pop debug c buffer =
     (if debug \<and> length buffer < start c then Inl AssertFailed
      else if length buffer = start c then
        (if debug \<and> invalid_productions c \<noteq> 0 then Inl AssertFailed else Inr buffer)
      else if invalid_productions c = 0 then
        (if start c \<le> length buffer then Inr (take (start c) buffer) else Inl OutOfBounds)
      else
        (if start c < length buffer
         then Inr (buffer @ [Skip (invalid_productions c) (length buffer - start c)])
         else Inl OutOfBounds))"

section \<open>Compressed source codec (src/compressed-source.cc)\<close>

type_synonym u8 = "8 word"
type_synonym uc16 = "16 word"
type_synonym u32 = "32 word"

definition kCharsPerIndexEntry :: nat where "kCharsPerIndexEntry = 1024"
definition kAsciiCode :: nat where "kAsciiCode = 0"
definition kUnicodeCode :: nat where "kUnicodeCode = 1"
definition kFirstBytecode :: nat where "kFirstBytecode = 2"
definition kLastBytecode :: nat where "kLastBytecode = 255"
definition kMaxTokenLength :: nat where "kMaxTokenLength = 9"

text \<open>
  Modelled from the spec: \<^verbatim>\<open>kIntSize\<close> is declared outside the file. It is the width of an
  index entry, "the platform's natural unsigned-integer width", here four bytes.
\<close>

definition kIntSize :: nat where "kIntSize = 4"

text \<open>
  Modelled from the spec: \<^verbatim>\<open>unibrow::Utf16::kMaxNonSurrogateCharCode\<close> is declared outside
  the file. A code point is emitted as "one code unit if \<open>\<le> 0xFFFF\<close>, else a surrogate pair".
\<close>

definition kMaxNonSurrogateCharCode :: u32 where "kMaxNonSurrogateCharCode = 0xFFFF"

text \<open>
  Modelled from the spec: \<^verbatim>\<open>unibrow::Utf16::kMaxCharCode\<close> is declared outside the file. A
  code point is "a Unicode scalar value (0..0x10FFFF)".
\<close>

definition kMaxCharCode :: u32 where "kMaxCharCode = 0x10FFFF"

text \<open>
  Modelled from the spec: \<^verbatim>\<open>unibrow::Utf16::LeadSurrogate\<close> and \<^verbatim>\<open>TrailSurrogate\<close>, among
  the "UTF-16 surrogate detection and combine helpers" consumed from the host, are declared
  outside the file. They are the two halves of the UTF-16 surrogate pair of a code point.
\<close>

definition LeadSurrogate :: "u32 \<Rightarrow> uc16" where
  "LeadSurrogate char_code = ucast (0xD800 + (drop_bit 10 (char_code - 0x10000) AND 0x3FF))"

definition TrailSurrogate :: "u32 \<Rightarrow> uc16" where
  "TrailSurrogate char_code = ucast (0xDC00 + (char_code AND 0x3FF))"

text \<open>
  The code table. \<^verbatim>\<open>code-table.inc.c\<close> and \<^verbatim>\<open>decoder.inc.c\<close> are included by the file and
  are not among the sources, so the table is a parameter of every function that reads it:
  \<open>token_lengths\<close> is the array \<^verbatim>\<open>token_lengths[256]\<close> of one-byte entries, and \<open>token_chars\<close> gives for a
  bytecode the characters of its token, which \<^verbatim>\<open>decode_bytecode\<close> hands to \<^verbatim>\<open>write_chars\<close>.
\<close>

record code_table =
  token_lengths :: "u8 \<Rightarrow> u8"
  token_chars :: "u8 \<Rightarrow> u8 list"

text \<open>
  \<^verbatim>\<open>CompressedSourceCodec::Cursor\<close>: an offset into the bytes and an offset into the token
  that starts there. (The classifier's cursor class has the name \<open>Cursor\<close> above.)
\<close>

record CodecCursor =
  byte_offset :: nat
  sub_token_offset :: nat

definition is_ascii :: "u8 \<Rightarrow> bool" where
  "is_ascii code \<longleftrightarrow> unat code = kAsciiCode"

definition is_unicode :: "u8 \<Rightarrow> bool" where
  "is_unicode code \<longleftrightarrow> unat code = kUnicodeCode"

definition is_bytecode :: "u8 \<Rightarrow> bool" where
  "is_bytecode code \<longleftrightarrow> kFirstBytecode \<le> unat code"

definition decode_unicode :: "u8 \<Rightarrow> u8 \<Rightarrow> u8 \<Rightarrow> u32" where
  "decode_unicode b0 b1 b2 = push_bit 16 (ucast b0) OR push_bit 8 (ucast b1) OR ucast b2"

text \<open>
  \<^verbatim>\<open>write_chars(dest, max, src, n)\<close> stores the first \<^verbatim>\<open>min(n, max)\<close> characters of
  \<^verbatim>\<open>src\<close>; the result is what it stored.
\<close>

definition write_chars :: "nat \<Rightarrow> u8 list \<Rightarrow> nat \<Rightarrow> uc16 list" where
  "write_chars max' src n =
     (if n \<le> max' then map ucast (take n src) else map ucast (take max' src))"

text \<open>
  Modelled from the spec: \<^verbatim>\<open>decoder.inc.c\<close>, the body of \<^verbatim>\<open>decode_bytecode\<close>, is missing. It
  "writes up to \<^verbatim>\<open>max\<close> characters of the code's expansion into \<^verbatim>\<open>dest\<close> and returns the
  number actually written". The result is the characters stored and the number returned.
\<close>

definition decode_bytecode :: "code_table \<Rightarrow> u8 \<Rightarrow> nat \<Rightarrow> uc16 list \<times> nat" where
  "decode_bytecode T code dest_len =
     (let written = write_chars dest_len (token_chars T code) (length (token_chars T code))
      in (written, length written))"

text \<open>
  \<^verbatim>\<open>write_as_utf16\<close> has two overloads. The one for \<^verbatim>\<open>uc16*\<close> stores one code unit or a
  surrogate pair, as far as \<^verbatim>\<open>dest_len\<close> allows, and returns 1 or 2 whatever it stored.
  The one for \<^verbatim>\<open>char*\<close> is \<^verbatim>\<open>UNREACHABLE(); return 0;\<close>. \<open>wide\<close> selects the overload.
\<close>

definition write_as_utf16 :: "bool \<Rightarrow> bool \<Rightarrow> u32 \<Rightarrow> nat \<Rightarrow> failure + uc16 list \<times> nat" where
  "write_as_utf16 debug wide codepoint dest_len =
     (if \<not> wide then (if debug then Inl UnreachableNarrowUtf16 else Inr ([], 0))
      else if codepoint \<le> kMaxNonSurrogateCharCode then
        Inr (take dest_len [ucast codepoint], 1)
      else if debug \<and> \<not> codepoint \<le> kMaxCharCode then Inl AssertFailed
      else Inr (take dest_len [LeadSurrogate codepoint, TrailSurrogate codepoint], 2))"

definition uc16_length :: "u8 \<Rightarrow> u8 \<Rightarrow> u8 \<Rightarrow> nat" where
  "uc16_length b0 b1 b2 =
     (if decode_unicode b0 b1 b2 < kMaxNonSurrogateCharCode then 1 else 2)"

subsection \<open>Index\<close>

definition IndexSize :: "nat \<Rightarrow> nat" where
  "IndexSize len = (len div kCharsPerIndexEntry) * kIntSize"

text \<open>
  \<^verbatim>\<open>memcpy(&offset, p, kIntSize)\<close> reads an \<^verbatim>\<open>unsigned\<close> in the byte order of the host; the
  model fixes the little-endian order.
\<close>

definition load_unsigned :: "u8 list \<Rightarrow> nat" where
  "load_unsigned bs = foldr (\<lambda>b acc. unat b + 256 * acc) bs 0"

definition ReadIndex :: "u8 list \<Rightarrow> nat \<Rightarrow> nat \<Rightarrow> failure + nat" where
  "ReadIndex data pos len =
     (if pos < kCharsPerIndexEntry then Inr 0
      else if length data < IndexSize len then Inl OutOfBounds
      else
        let index_base = length data - IndexSize len;
            entry = pos div kCharsPerIndexEntry - 1;
            at = index_base + entry * kIntSize
        in if length data < at + kIntSize then Inl OutOfBounds
           else Inr (load_unsigned (take kIntSize (drop at data))))"

subsection \<open>AdvanceCursor and GetCursor\<close>

text \<open>
  The loop of \<^verbatim>\<open>AdvanceCursor\<close>, on its four variables. \<^verbatim>\<open>chars\<close> and the two character
  counts are \<^verbatim>\<open>int\<close>; byte offsets stay below the size of the data plus four, far from the
  range of \<^verbatim>\<open>unsigned\<close>, and are natural numbers. A read at or beyond \<^verbatim>\<open>data.length()\<close>
  is the failure \<open>OutOfBounds\<close>. The payload byte of an ASCII escape is skipped, not read.
  \<^verbatim>\<open>ASSERT(is_unicode(code))\<close> cannot fail: a code that is neither a bytecode nor 0 is 1.
\<close>

function AdvanceCursor_loop ::
  "(u8 \<Rightarrow> u8) \<Rightarrow> u8 list \<Rightarrow> int \<Rightarrow> nat \<Rightarrow> int \<Rightarrow> nat \<Rightarrow> int
     \<Rightarrow> failure + nat \<times> int \<times> nat \<times> int" where
  "AdvanceCursor_loop lens data chars byte_offset' chars_written prev_byte_offset
       prev_chars_written =
     (if chars_written < chars then
        if length data \<le> byte_offset' then Inl OutOfBounds
        else
          let code = data ! byte_offset';
              byte_offset1 = byte_offset' + 1;
              chars_written1 = chars_written + int (unat (lens code))
          in if is_bytecode code then
               AdvanceCursor_loop lens data chars byte_offset1 chars_written1
                 byte_offset' chars_written
             else if is_ascii code then
               AdvanceCursor_loop lens data chars (byte_offset1 + 1) chars_written1
                 byte_offset' chars_written
             else if length data \<le> byte_offset1 + 2 then Inl OutOfBounds
             else
               AdvanceCursor_loop lens data chars (byte_offset1 + 3)
                 (chars_written1
                    + (int (uc16_length (data ! byte_offset1) (data ! (byte_offset1 + 1))
                              (data ! (byte_offset1 + 2))) - 1))
                 byte_offset' chars_written
      else Inr (byte_offset', chars_written, prev_byte_offset, prev_chars_written))"
  by pat_completeness auto
termination
  by (relation "measure (\<lambda>(lens, data, chars, byte_offset', rest). length data - byte_offset')")
    auto

declare AdvanceCursor_loop.simps [simp del]

text \<open>The conversion of an \<^verbatim>\<open>int\<close> to \<^verbatim>\<open>unsigned\<close>.\<close>

definition to_unsigned :: "int \<Rightarrow> nat" where
  "to_unsigned i = nat (i mod 2 ^ 32)"

definition AdvanceCursor ::
  "(u8 \<Rightarrow> u8) \<Rightarrow> u8 list \<Rightarrow> CodecCursor \<Rightarrow> int \<Rightarrow> failure + CodecCursor" where
  "AdvanceCursor lens data cursor chars =
     (let chars1 = chars + int (sub_token_offset cursor) in
      case AdvanceCursor_loop lens data chars1 (byte_offset cursor) 0 0 0 of
        Inl e \<Rightarrow> Inl e
      | Inr (byte_offset1, chars_written, prev_byte_offset, prev_chars_written) \<Rightarrow>
          if chars_written = chars1
          then Inr \<lparr>byte_offset = byte_offset1, sub_token_offset = 0\<rparr>
          else Inr \<lparr>byte_offset = prev_byte_offset,
                    sub_token_offset = to_unsigned (chars1 - prev_chars_written)\<rparr>)"

definition GetCursor ::
  "(u8 \<Rightarrow> u8) \<Rightarrow> u8 list \<Rightarrow> nat \<Rightarrow> nat \<Rightarrow> failure + CodecCursor" where
  "GetCursor lens data pos len =
     (case ReadIndex data pos len of
        Inl e \<Rightarrow> Inl e
      | Inr anchor \<Rightarrow>
          AdvanceCursor lens data \<lparr>byte_offset = anchor, sub_token_offset = 0\<rparr>
            (int (pos mod kCharsPerIndexEntry)))"

subsection \<open>IsAscii\<close>

text \<open>
  The loop of \<^verbatim>\<open>IsAscii\<close>, on the offset of \<^verbatim>\<open>data_ptr\<close> and on \<^verbatim>\<open>chars\<close>. The debug build
  checks \<^verbatim>\<open>data_ptr < data_end\<close> before it reads the code and before it skips the payload
  of an ASCII escape; the release build reads unchecked.
\<close>

function IsAscii_loop ::
  "bool \<Rightarrow> (u8 \<Rightarrow> u8) \<Rightarrow> u8 list \<Rightarrow> nat \<Rightarrow> int \<Rightarrow> failure + bool" where
  "IsAscii_loop debug lens data data_ptr chars =
     (if 0 < chars then
        if length data \<le> data_ptr then Inl (if debug then AssertFailed else OutOfBounds)
        else
          let code = data ! data_ptr;
              data_ptr1 = data_ptr + 1;
              chars1 = chars - int (unat (lens code))
          in if is_bytecode code then IsAscii_loop debug lens data data_ptr1 chars1
             else if is_ascii code then
               (if debug \<and> length data \<le> data_ptr1 then Inl AssertFailed
                else IsAscii_loop debug lens data (data_ptr1 + 1) chars1)
             else Inr False
      else Inr True)"
  by pat_completeness auto
termination
  by (relation "measure (\<lambda>(debug, lens, data, data_ptr, chars). length data - data_ptr)") auto

declare IsAscii_loop.simps [simp del]

definition IsAscii ::
  "bool \<Rightarrow> (u8 \<Rightarrow> u8) \<Rightarrow> u8 list \<Rightarrow> CodecCursor \<Rightarrow> int \<Rightarrow> failure + bool" where
  "IsAscii debug lens data cursor chars =
     IsAscii_loop debug lens data (byte_offset cursor) (chars + int (sub_token_offset cursor))"

subsection \<open>Decode\<close>

text \<open>
  The first phase of \<^verbatim>\<open>Decode\<close>, taken when the cursor's sub-token offset is not zero: the
  token under the cursor is decoded into the scratch buffer \<^verbatim>\<open>first_token\<close>, and the code
  units from the sub-token offset on are copied, as far as the destination has room. The
  result is what was copied and the offset of \<^verbatim>\<open>data_ptr\<close> after the token. On an ASCII
  escape the debug build stops at \<^verbatim>\<open>UNREACHABLE()\<close> and the release build decodes the one
  character. The release build computes \<^verbatim>\<open>decoded_chars - sub_token_offset\<close> on \<^verbatim>\<open>unsigned\<close>; a copy from beyond
  what was decoded into the scratch buffer reads uninitialised memory, the failure
  \<open>OutOfBounds\<close>.
\<close>

definition Decode_first_token ::
  "bool \<Rightarrow> code_table \<Rightarrow> bool \<Rightarrow> u8 list \<Rightarrow> CodecCursor \<Rightarrow> nat
     \<Rightarrow> failure + uc16 list \<times> nat" where
  "Decode_first_token debug T wide data cursor dest_len =
     (let data_ptr = byte_offset cursor;
          sub = sub_token_offset cursor
      in if debug \<and> unat (token_lengths T 255) \<noteq> kMaxTokenLength then Inl AssertFailed
         else if debug \<and> \<not> sub < kMaxTokenLength then Inl AssertFailed
         else if length data \<le> data_ptr then Inl (if debug then AssertFailed else OutOfBounds)
         else
           let code = data ! data_ptr;
               data_ptr1 = data_ptr + 1
           in case (if is_bytecode code then
                      Inr (decode_bytecode T code kMaxTokenLength, data_ptr1)
                    else if is_ascii code then
                      (if debug then Inl UnreachableFirstTokenAscii
                       else if length data \<le> data_ptr1 then Inl OutOfBounds
                       else Inr (([ucast (data ! data_ptr1)], 1), data_ptr1 + 1))
                    else if length data \<le> data_ptr1 + 2 then
                      Inl (if debug then AssertFailed else OutOfBounds)
                    else
                      (case write_as_utf16 debug wide
                              (decode_unicode (data ! data_ptr1) (data ! (data_ptr1 + 1))
                                 (data ! (data_ptr1 + 2)))
                              kMaxTokenLength of
                         Inl e \<Rightarrow> Inl e
                       | Inr r \<Rightarrow> Inr (r, data_ptr1 + 3))) of
                Inl e \<Rightarrow> Inl e
              | Inr ((first_token, decoded_chars), data_ptr2) \<Rightarrow>
                  if debug \<and> \<not> sub < decoded_chars then Inl AssertFailed
                  else
                    let decoded_chars1 = to_unsigned (int decoded_chars - int sub);
                        decoded_chars2 =
                          (if dest_len < decoded_chars1 then dest_len else decoded_chars1)
                    in if 0 < decoded_chars2 \<and> length first_token < decoded_chars2 + sub
                       then Inl OutOfBounds
                       else Inr (take decoded_chars2 (drop sub first_token), data_ptr2))"

text \<open>
  The second phase, the loop over whole tokens. \<open>dest\<close> is what has been stored so far;
  \<^verbatim>\<open>dest_ptr\<close> stands at its length, except after a surrogate pair whose second unit did
  not fit, where it stands one beyond \<^verbatim>\<open>dest_end\<close>: the loop ends in both cases.
\<close>

function Decode_loop ::
  "bool \<Rightarrow> code_table \<Rightarrow> bool \<Rightarrow> u8 list \<Rightarrow> nat \<Rightarrow> nat \<Rightarrow> uc16 list
     \<Rightarrow> failure + uc16 list" where
  "Decode_loop debug T wide data dest_len data_ptr dest =
     (if length dest < dest_len then
        if length data \<le> data_ptr then Inl (if debug then AssertFailed else OutOfBounds)
        else
          let code = data ! data_ptr;
              data_ptr1 = data_ptr + 1;
              room = dest_len - length dest
          in if is_bytecode code then
               Decode_loop debug T wide data dest_len data_ptr1
                 (dest @ fst (decode_bytecode T code room))
             else if is_ascii code then
               (if length data \<le> data_ptr1
                then Inl (if debug then AssertFailed else OutOfBounds)
                else Decode_loop debug T wide data dest_len (data_ptr1 + 1)
                       (dest @ [ucast (data ! data_ptr1)]))
             else if length data \<le> data_ptr1 + 2 then
               Inl (if debug then AssertFailed else OutOfBounds)
             else
               (case write_as_utf16 debug wide
                       (decode_unicode (data ! data_ptr1) (data ! (data_ptr1 + 1))
                          (data ! (data_ptr1 + 2)))
                       room of
                  Inl e \<Rightarrow> Inl e
                | Inr (units, n) \<Rightarrow>
                    Decode_loop debug T wide data dest_len (data_ptr1 + 3) (dest @ units))
      else Inr dest)"
  by pat_completeness auto
termination
  by (relation "measure (\<lambda>(debug, T, wide, data, dest_len, data_ptr, dest).
                   length data - data_ptr)") auto

declare Decode_loop.simps [simp del]

definition Decode ::
  "bool \<Rightarrow> code_table \<Rightarrow> bool \<Rightarrow> u8 list \<Rightarrow> CodecCursor \<Rightarrow> nat \<Rightarrow> failure + uc16 list" where
  "Decode debug T wide data cursor dest_len =
     (if sub_token_offset cursor \<noteq> 0 then
        (case Decode_first_token debug T wide data cursor dest_len of
           Inl e \<Rightarrow> Inl e
         | Inr (copied, data_ptr) \<Rightarrow> Decode_loop debug T wide data dest_len data_ptr copied)
      else Decode_loop debug T wide data dest_len (byte_offset cursor) [])"

subsection \<open>The compressed source and its operations\<close>

text \<open>
  A \<^verbatim>\<open>CompressedSource\<close>: the bytes (the token stream with the index appended), the length
  of the original string in code units, and the original string while the host keeps it.
  A host string is the list of its UTF-16 code units.
\<close>

record CompressedSource =
  bytes :: "u8 list"
  char_length :: nat
  cached_string :: "uc16 list option"

text \<open>The static helper \<^verbatim>\<open>Get\<close>: one code unit at the cursor.\<close>

definition Get :: "bool \<Rightarrow> code_table \<Rightarrow> CompressedSource \<Rightarrow> CodecCursor \<Rightarrow> failure + uc16" where
  "Get debug T source cursor =
     (case Decode debug T True (bytes source) cursor 1 of
        Inl e \<Rightarrow> Inl e
      | Inr chars \<Rightarrow> (case chars of [] \<Rightarrow> Inl OutOfBounds | c # _ \<Rightarrow> Inr c))"

text \<open>
  \<^verbatim>\<open>Decompress(start, length)\<close>, the overload that returns a string. With the original
  string cached it is the host's \<^verbatim>\<open>NewSubString\<close>.
\<close>

definition Decompress ::
  "bool \<Rightarrow> code_table \<Rightarrow> CompressedSource \<Rightarrow> nat \<Rightarrow> nat \<Rightarrow> failure + uc16 list" where
  "Decompress debug T source start' len =
     (case cached_string source of
        Some s \<Rightarrow> Inr (take len (drop start' s))
      | None \<Rightarrow>
          (case GetCursor (token_lengths T) (bytes source) start' (char_length source) of
             Inl e \<Rightarrow> Inl e
           | Inr cursor \<Rightarrow>
               (case IsAscii debug (token_lengths T) (bytes source) cursor (int len) of
                  Inl e \<Rightarrow> Inl e
                | Inr ascii \<Rightarrow>
                    if ascii then Decode debug T False (bytes source) cursor len
                    else Decode debug T True (bytes source) cursor len)))"

text \<open>
  \<^verbatim>\<open>SubStringEquals\<close>. The loop compares, then advances the cursor by one, then tests
  \<^verbatim>\<open>i < chars\<close>: the cursor is advanced after the last comparison too. With the original
  string cached the answer is the host's \<^verbatim>\<open>String::SubStringEquals\<close>, the equality of the
  substring with \<^verbatim>\<open>other\<close>.
\<close>

fun SubStringEquals_loop ::
  "bool \<Rightarrow> code_table \<Rightarrow> CompressedSource \<Rightarrow> CodecCursor \<Rightarrow> uc16 list \<Rightarrow> failure + bool" where
  "SubStringEquals_loop debug T source cursor [] = Inr True"
| "SubStringEquals_loop debug T source cursor (c # other) =
     (case Get debug T source cursor of
        Inl e \<Rightarrow> Inl e
      | Inr g \<Rightarrow>
          if g \<noteq> c then Inr False
          else
            (case AdvanceCursor (token_lengths T) (bytes source) cursor 1 of
               Inl e \<Rightarrow> Inl e
             | Inr cursor1 \<Rightarrow> SubStringEquals_loop debug T source cursor1 other))"

definition SubStringEquals ::
  "bool \<Rightarrow> code_table \<Rightarrow> CompressedSource \<Rightarrow> nat \<Rightarrow> uc16 list \<Rightarrow> failure + bool" where
  "SubStringEquals debug T source start' other =
     (if char_length source < start' + length other then Inr False
      else
        (case cached_string source of
           Some s \<Rightarrow> Inr (take (length other) (drop start' s) = other)
         | None \<Rightarrow>
             (case GetCursor (token_lengths T) (bytes source) start' (char_length source) of
                Inl e \<Rightarrow> Inl e
              | Inr cursor \<Rightarrow> SubStringEquals_loop debug T source cursor other)))"

text \<open>
  \<^verbatim>\<open>GetLineNumberSlow\<close>. \<open>n\<close> is the number of iterations that \<^verbatim>\<open>while (pos-- > 0)\<close> has
  left.
\<close>

fun GetLineNumberSlow_loop ::
  "bool \<Rightarrow> code_table \<Rightarrow> CompressedSource \<Rightarrow> CodecCursor \<Rightarrow> nat \<Rightarrow> int \<Rightarrow> failure + int" where
  "GetLineNumberSlow_loop debug T source cursor 0 line = Inr line"
| "GetLineNumberSlow_loop debug T source cursor (Suc n) line =
     (case Get debug T source cursor of
        Inl e \<Rightarrow> Inl e
      | Inr c \<Rightarrow>
          (case AdvanceCursor (token_lengths T) (bytes source) cursor 1 of
             Inl e \<Rightarrow> Inl e
           | Inr cursor1 \<Rightarrow>
               GetLineNumberSlow_loop debug T source cursor1 n
                 (if c = 0x0A then line + 1 else line)))"

definition GetLineNumberSlow ::
  "bool \<Rightarrow> code_table \<Rightarrow> CompressedSource \<Rightarrow> int \<Rightarrow> failure + int" where
  "GetLineNumberSlow debug T source pos =
     (let pos1 = (if int (char_length source) < pos then int (char_length source) else pos)
      in GetLineNumberSlow_loop debug T source \<lparr>byte_offset = 0, sub_token_offset = 0\<rparr>
           (nat pos1) 0)"

subsection \<open>Compress\<close>

text \<open>
  Modelled from the spec: the surrogate tests of the host's \<^verbatim>\<open>unibrow::Utf16\<close>, which the
  encoder needs to find "surrogate pairs in a UTF-16 source", are not among the sources.
  They are those of UTF-16.
\<close>

definition IsLeadSurrogate :: "uc16 \<Rightarrow> bool" where
  "IsLeadSurrogate code \<longleftrightarrow> code AND 0xFC00 = 0xD800"

definition IsTrailSurrogate :: "uc16 \<Rightarrow> bool" where
  "IsTrailSurrogate code \<longleftrightarrow> code AND 0xFC00 = 0xDC00"

definition CombineSurrogatePair :: "uc16 \<Rightarrow> uc16 \<Rightarrow> u32" where
  "CombineSurrogatePair lead trail =
     0x10000 + push_bit 10 (ucast lead AND 0x3FF) + (ucast trail AND 0x3FF)"

text \<open>
  A token of the byte stream: a code and its payload. \<open>token_bytes\<close> is the layout of the
  spec's section on external interfaces: 0 and one byte, 1 and three bytes (big-endian), or
  a bytecode alone.
\<close>

datatype token = AsciiEscape u8 | UnicodeEscape u8 u8 u8 | Bytecode u8

fun token_bytes :: "token \<Rightarrow> u8 list" where
  "token_bytes (AsciiEscape b) = [0, b]"
| "token_bytes (UnicodeEscape b0 b1 b2) = [1, b0, b1, b2]"
| "token_bytes (Bytecode code) = [code]"

definition stream_bytes :: "token list \<Rightarrow> u8 list" where
  "stream_bytes toks = concat (map token_bytes toks)"

text \<open>
  Modelled from the spec: \<^verbatim>\<open>encoder.inc.c\<close>, the body of the three \<^verbatim>\<open>Encode...\<close> functions,
  is missing. The encoder "greedily chooses the longest dictionary bytecode whose expansion
  matches the upcoming characters; ties broken by code value (smallest wins)".
  \<open>token_matches\<close> says that the expansion of a bytecode is a prefix of the input.
\<close>

definition token_matches :: "code_table \<Rightarrow> uc16 list \<Rightarrow> u8 \<Rightarrow> bool" where
  "token_matches T input code \<longleftrightarrow>
     is_bytecode code \<and> token_chars T code \<noteq> []
     \<and> take (length (token_chars T code)) input = map ucast (token_chars T code)"

text \<open>
  Modelled from the spec: one step of the search for the longest match, over the bytecodes
  in increasing order; a later code replaces the best one only when its token is longer.
\<close>

definition better_match :: "code_table \<Rightarrow> uc16 list \<Rightarrow> u8 option \<Rightarrow> u8 \<Rightarrow> u8 option" where
  "better_match T input best code =
     (if token_matches T input code
         \<and> (case best of
               None \<Rightarrow> True
             | Some b \<Rightarrow> length (token_chars T b) < length (token_chars T code))
      then Some code else best)"

text \<open>Modelled from the spec: the longest matching bytecode, the smallest among equals.\<close>

definition longest_match :: "code_table \<Rightarrow> uc16 list \<Rightarrow> u8 option" where
  "longest_match T input =
     foldl (better_match T input) None (map of_nat [kFirstBytecode ..< Suc kLastBytecode])"

text \<open>
  Modelled from the spec: a Unicode escape is "followed by three big-endian bytes encoding
  one code point".
\<close>

definition unicode_escape :: "u32 \<Rightarrow> token" where
  "unicode_escape codepoint =
     UnicodeEscape (ucast (drop_bit 16 codepoint)) (ucast (drop_bit 8 codepoint))
       (ucast codepoint)"

text \<open>
  Modelled from the spec: the tokens of one block. "If no bytecode matches the next
  character, emit an ASCII escape (for code points 0..127) or a Unicode escape (for code
  points > 127). For surrogate pairs in a UTF-16 source, the encoder MUST emit one Unicode
  escape carrying the combined scalar value." \<open>covered\<close> counts the characters that the
  token emitted last still covers.
\<close>

fun encode_chars :: "code_table \<Rightarrow> nat \<Rightarrow> uc16 list \<Rightarrow> token list" where
  "encode_chars T covered [] = []"
| "encode_chars T (Suc covered) (c # cs) = encode_chars T covered cs"
| "encode_chars T 0 (c # cs) =
     (case longest_match T (c # cs) of
        Some code \<Rightarrow> Bytecode code # encode_chars T (length (token_chars T code) - 1) cs
      | None \<Rightarrow>
          (case cs of
             trail # _ \<Rightarrow>
               if IsLeadSurrogate c \<and> IsTrailSurrogate trail
               then unicode_escape (CombineSurrogatePair c trail) # encode_chars T 1 cs
               else if c \<le> 0x7F then AsciiEscape (ucast c) # encode_chars T 0 cs
               else unicode_escape (ucast c) # encode_chars T 0 cs
           | [] \<Rightarrow>
               if c \<le> 0x7F then [AsciiEscape (ucast c)] else [unicode_escape (ucast c)]))"

text \<open>
  Modelled from the spec: the encoder "reads input in blocks of K = 1024 logical
  characters"; \<open>block input i\<close> is the block number \<open>i\<close>.
\<close>

definition block :: "uc16 list \<Rightarrow> nat \<Rightarrow> uc16 list" where
  "block input i = take kCharsPerIndexEntry (drop (i * kCharsPerIndexEntry) input)"

text \<open>Modelled from the spec: the bytes of the first \<open>n\<close> blocks.\<close>

definition encode_blocks :: "code_table \<Rightarrow> uc16 list \<Rightarrow> nat \<Rightarrow> u8 list" where
  "encode_blocks T input n =
     concat (map (\<lambda>i. stream_bytes (encode_chars T 0 (block input i))) [0 ..< n])"

text \<open>
  Modelled from the spec: \<^verbatim>\<open>Encode\<close> gives the byte stream and the index. "Index entry
  \<open>i\<close> (0-based) contains the byte offset of the token beginning logical position
  \<open>(i+1)\<cdot>K\<close>", which is the number of bytes of the blocks before it.
\<close>

definition Encode :: "code_table \<Rightarrow> uc16 list \<Rightarrow> u8 list \<times> nat list" where
  "Encode T input =
     (encode_blocks T input
        ((length input + kCharsPerIndexEntry - 1) div kCharsPerIndexEntry),
      map (\<lambda>i. length (encode_blocks T input (Suc i)))
        [0 ..< length input div kCharsPerIndexEntry])"

text \<open>
  \<^verbatim>\<open>WriteIndex\<close> stores an entry with \<^verbatim>\<open>memcpy\<close>, in the byte order that
  \<open>load_unsigned\<close> reads.
\<close>

definition store_unsigned :: "nat \<Rightarrow> u8 list" where
  "store_unsigned n = map (\<lambda>k. of_nat (n div 256 ^ k)) [0 ..< kIntSize]"

text \<open>
  \<^verbatim>\<open>CompressedSource::Compress\<close>. The assertions at the head of \<^verbatim>\<open>Encode\<close> and the block
  under \<^verbatim>\<open>#ifdef DEBUG\<close> belong to the debug build: the latter advances a cursor over the
  token stream by the length of the string and asserts that it arrives at the end of the
  stream with sub-token offset 0. The new source keeps the string.
\<close>

definition Compress :: "bool \<Rightarrow> code_table \<Rightarrow> uc16 list \<Rightarrow> failure + CompressedSource" where
  "Compress debug T src =
     (case Encode T src of
        (out, index) \<Rightarrow>
          if debug
             \<and> \<not> (token_lengths T 0 = 1 \<and> token_lengths T 1 = 1
                    \<and> token_lengths T 2 \<le> token_lengths T 255
                    \<and> unat (token_lengths T 255) = kMaxTokenLength)
          then Inl AssertFailed
          else
            let source = \<lparr>bytes = out @ concat (map store_unsigned index),
                           char_length = length src, cached_string = Some src\<rparr>
            in if debug then
                 (case AdvanceCursor (token_lengths T) out
                         \<lparr>byte_offset = 0, sub_token_offset = 0\<rparr> (int (length src)) of
                    Inl e \<Rightarrow> Inl e
                  | Inr cursor \<Rightarrow>
                      if byte_offset cursor = length out \<and> sub_token_offset cursor = 0
                      then Inr source else Inl AssertFailed)
               else Inr source)"

section \<open>Token streams\<close>

text \<open>
  A byte stream is well formed when it is the bytes of a list of tokens whose bytecodes are
  codes from 2 on.
\<close>

fun wf_token :: "token \<Rightarrow> bool" where
  "wf_token (Bytecode code) = is_bytecode code"
| "wf_token (AsciiEscape b) = True"
| "wf_token (UnicodeEscape b0 b1 b2) = True"

fun is_unicode_escape :: "token \<Rightarrow> bool" where
  "is_unicode_escape (UnicodeEscape b0 b1 b2) = True"
| "is_unicode_escape (AsciiEscape b) = False"
| "is_unicode_escape (Bytecode code) = False"

text \<open>
  The number of code units of a token in the decoded text: one for an ASCII escape, what
  \<^verbatim>\<open>write_as_utf16\<close> stores for a Unicode escape, and the table's length for a bytecode.
\<close>

fun token_units :: "(u8 \<Rightarrow> u8) \<Rightarrow> token \<Rightarrow> nat" where
  "token_units lens (AsciiEscape b) = 1"
| "token_units lens (UnicodeEscape b0 b1 b2) =
     (if decode_unicode b0 b1 b2 \<le> kMaxNonSurrogateCharCode then 1 else 2)"
| "token_units lens (Bytecode code) = unat (lens code)"

text \<open>
  For every code unit of the decoded text, whether a Unicode escape contributes it.
\<close>

definition from_unicode_escape :: "(u8 \<Rightarrow> u8) \<Rightarrow> token list \<Rightarrow> bool list" where
  "from_unicode_escape lens toks =
     concat (map (\<lambda>t. replicate (token_units lens t) (is_unicode_escape t)) toks)"

text \<open>
  The code units of a token in the decoded text, and the text of a token list.
\<close>

fun token_text :: "code_table \<Rightarrow> token \<Rightarrow> uc16 list" where
  "token_text T (AsciiEscape b) = [ucast b]"
| "token_text T (UnicodeEscape b0 b1 b2) =
     (if decode_unicode b0 b1 b2 \<le> kMaxNonSurrogateCharCode
      then [ucast (decode_unicode b0 b1 b2)]
      else [LeadSurrogate (decode_unicode b0 b1 b2), TrailSurrogate (decode_unicode b0 b1 b2)])"
| "token_text T (Bytecode code) = map ucast (token_chars T code)"

definition stream_text :: "code_table \<Rightarrow> token list \<Rightarrow> uc16 list" where
  "stream_text T toks = concat (map (token_text T) toks)"

text \<open>
  What \<^verbatim>\<open>Decode\<close> needs of a token: a bytecode is a code from 2 on and its token fits the
  scratch buffer of \<^verbatim>\<open>kMaxTokenLength\<close> code units; the code point of a Unicode escape is
  at most \<^verbatim>\<open>kMaxCharCode\<close>, as the debug build asserts.
\<close>

fun decodable :: "code_table \<Rightarrow> token \<Rightarrow> bool" where
  "decodable T (AsciiEscape b) = True"
| "decodable T (UnicodeEscape b0 b1 b2) = (decode_unicode b0 b1 b2 \<le> kMaxCharCode)"
| "decodable T (Bytecode code) =
     (is_bytecode code \<and> length (token_chars T code) \<le> kMaxTokenLength)"

text \<open>The number of characters that \<^verbatim>\<open>AdvanceCursor\<close> counts for a token.\<close>

fun cursor_units :: "(u8 \<Rightarrow> u8) \<Rightarrow> token \<Rightarrow> nat" where
  "cursor_units lens (AsciiEscape b) = unat (lens 0)"
| "cursor_units lens (UnicodeEscape b0 b1 b2) = unat (lens 1) + uc16_length b0 b1 b2 - 1"
| "cursor_units lens (Bytecode code) = unat (lens code)"

text \<open>
  Where \<open>r\<close> characters from the start of a token list lead, counted as \<^verbatim>\<open>AdvanceCursor\<close>
  counts: the number of whole tokens passed and the offset into the next one.
\<close>

fun seek :: "(u8 \<Rightarrow> u8) \<Rightarrow> token list \<Rightarrow> nat \<Rightarrow> nat \<times> nat" where
  "seek lens [] r = (0, r)"
| "seek lens (t # ts) r =
     (if r = 0 then (0, 0)
      else if r < cursor_units lens t then (0, r)
      else (case seek lens ts (r - cursor_units lens t) of (n, s) \<Rightarrow> (Suc n, s)))"

text \<open>The end of \<^verbatim>\<open>AdvanceCursor\<close>, after its loop.\<close>

definition finish :: "int \<Rightarrow> failure + nat \<times> int \<times> nat \<times> int \<Rightarrow> failure + CodecCursor" where
  "finish chars res =
     (case res of
        Inl e \<Rightarrow> Inl e
      | Inr (byte_offset1, chars_written, prev_byte_offset, prev_chars_written) \<Rightarrow>
          if chars_written = chars
          then Inr \<lparr>byte_offset = byte_offset1, sub_token_offset = 0\<rparr>
          else Inr \<lparr>byte_offset = prev_byte_offset,
                    sub_token_offset = to_unsigned (chars - prev_chars_written)\<rparr>)"

subsection \<open>Tables and sources of the examples\<close>

text \<open>
  Any table, with the three entries that \<^verbatim>\<open>Encode\<close> asserts set as asserted:
  \<^verbatim>\<open>token_lengths[kAsciiCode] == 1\<close>, \<^verbatim>\<open>token_lengths[kUnicodeCode] == 1\<close> and
  \<^verbatim>\<open>token_lengths[kLastBytecode] == kMaxTokenLength\<close>.
\<close>

definition with_asserted_lengths :: "code_table \<Rightarrow> code_table" where
  "with_asserted_lengths T =
     T\<lparr>token_lengths := (token_lengths T)(0 := 1, 1 := 1, 255 := 9)\<rparr>"

text \<open>
  A small table: the bytecode 2 is the token \<^verbatim>\<open>var\<close>, every other bytecode is nine spaces.
\<close>

definition example_table :: code_table where
  "example_table =
     \<lparr>token_lengths = (\<lambda>code. if code = 0 \<or> code = 1 then 1 else if code = 2 then 3 else 9),
      token_chars = (\<lambda>code. if code = 2 then [0x76, 0x61, 0x72] else replicate 9 0x20)\<rparr>"

text \<open>
  A source of three code units that begins with the Unicode escapes of U+FFFF and U+0100;
  \<open>rest\<close> is the token of the third code unit. The string is not cached.
\<close>

definition ffff_source :: "u8 list \<Rightarrow> CompressedSource" where
  "ffff_source rest =
     \<lparr>bytes = [1, 0x00, 0xFF, 0xFF, 1, 0x00, 0x01, 0x00] @ rest, char_length = 3,
      cached_string = None\<rparr>"

text \<open>
  The tokens of the string of 1025 code units that is U+FFFF followed by 1024 times U+0100,
  and its bytes: the stream and the one index entry, for position 1024, which is the byte
  offset 4096 of the token number 1024.
\<close>

definition anchor_tokens :: "token list" where
  "anchor_tokens = UnicodeEscape 0x00 0xFF 0xFF # replicate 1024 (UnicodeEscape 0x00 0x01 0x00)"

definition anchor_data :: "u8 list" where
  "anchor_data = stream_bytes anchor_tokens @ [0x00, 0x10, 0x00, 0x00]"

section \<open>The classifier: Accumulate and FindError\<close>

subsection \<open>Accumulate and arrow formal parameters\<close>

lemma arrow_bit_absorb:
  "(x OR ArrowFormalParametersProduction) AND ArrowFormalParametersProduction \<noteq> 0"
  by (simp add: ArrowFormalParametersProduction_def bit.conj_disj_distrib2)

lemma arrow_nonzero: "ArrowFormalParametersProduction \<noteq> 0"
  by (simp add: ArrowFormalParametersProduction_def)

lemma non_arrow_errors:
  "(a OR ((p AND NOT ArrowFormalParametersProduction)
          AND (i AND NOT ArrowFormalParametersProduction)))
     AND ArrowFormalParametersProduction
   = a AND ArrowFormalParametersProduction"
  by (rule bit_eqI) (auto simp add: bit_simps)

text \<open>
  C6. After \<^verbatim>\<open>Accumulate(inner, productions)\<close> with the arrow-formal-parameters bit in
  \<^verbatim>\<open>productions\<close>, the outer cursor is valid for arrow formal parameters exactly when it
  was valid before and the inner cursor is a valid binding pattern. The inner cursor's own
  arrow-formal-parameters bit plays no part.
\<close>

theorem Accumulate_arrow_formal_parameters:
  assumes "prods AND ArrowFormalParametersProduction \<noteq> 0"
  shows "is_valid_arrow_formal_parameters (Accumulate outer inner prods)
         \<longleftrightarrow> is_valid_arrow_formal_parameters outer \<and> is_valid_binding_pattern inner"
proof (cases "invalid_productions inner = 0")
  case True
  then show ?thesis
    by (simp add: Accumulate_def is_valid_binding_pattern_def is_valid_def)
next
  case False
  show ?thesis
  proof (cases "is_valid_binding_pattern inner")
    case True
    with False show ?thesis
      by (simp add: Accumulate_def Let_def is_valid_arrow_formal_parameters_def is_valid_def
          non_arrow_errors)
  next
    case False
    with assms \<open>invalid_productions inner \<noteq> 0\<close> show ?thesis
      by (simp add: Accumulate_def Let_def is_valid_arrow_formal_parameters_def is_valid_def
          arrow_bit_absorb arrow_nonzero)
  qed
qed

theorem Accumulate_arrow_formal_parameters_witness:
  "AllProductions AND ArrowFormalParametersProduction \<noteq> 0
   \<and> \<not> is_valid_arrow_formal_parameters
         \<lparr>start = 0, invalid_productions = ArrowFormalParametersProduction\<rparr>
   \<and> is_valid_binding_pattern \<lparr>start = 0, invalid_productions = ArrowFormalParametersProduction\<rparr>
   \<and> is_valid_arrow_formal_parameters
       (Accumulate \<lparr>start = 0, invalid_productions = 0\<rparr>
          \<lparr>start = 0, invalid_productions = ArrowFormalParametersProduction\<rparr> AllProductions)"
proof -
  have h: "AllProductions AND ArrowFormalParametersProduction \<noteq> 0"
    by (simp add: AllProductions_def StandardProductions_def PatternProductions_def
        FormalParametersProductions_def ExpressionProduction_def BindingPatternProduction_def
        AssignmentPatternProduction_def DistinctFormalParametersProduction_def
        StrictModeFormalParametersProduction_def StrongModeFormalParametersProduction_def
        ArrowFormalParametersProduction_def)
  have b: "is_valid_binding_pattern
             \<lparr>start = 0, invalid_productions = ArrowFormalParametersProduction\<rparr>"
    by (simp add: is_valid_binding_pattern_def is_valid_def BindingPatternProduction_def
        ArrowFormalParametersProduction_def)
  have o: "is_valid_arrow_formal_parameters \<lparr>start = 0, invalid_productions = 0\<rparr>"
    by (simp add: is_valid_arrow_formal_parameters_def is_valid_def)
  have i: "\<not> is_valid_arrow_formal_parameters
             \<lparr>start = 0, invalid_productions = ArrowFormalParametersProduction\<rparr>"
    by (simp add: is_valid_arrow_formal_parameters_def is_valid_def
        ArrowFormalParametersProduction_def)
  from Accumulate_arrow_formal_parameters [OF h,
      of "\<lparr>start = 0, invalid_productions = 0\<rparr>"
         "\<lparr>start = 0, invalid_productions = ArrowFormalParametersProduction\<rparr>"] h b o i
  show ?thesis by simp
qed

subsection \<open>FindError after a nested scope\<close>

lemmas production_defs =
  ExpressionProduction_def BindingPatternProduction_def AssignmentPatternProduction_def
  DistinctFormalParametersProduction_def StrictModeFormalParametersProduction_def
  StrongModeFormalParametersProduction_def ArrowFormalParametersProduction_def
  PatternProductions_def FormalParametersProductions_def StandardProductions_def
  AllProductions_def

text \<open>
  C4. The claim's own scenario, through the class's operations: the outer cursor records the
  error \<open>E1\<close> for the expression production, a nested cursor then records \<open>E2\<close> for the same
  production, the outer cursor accumulates the inner one, and the inner scope is popped. The
  log is then \<open>[Leaf E1, Leaf E2, Skip 1]\<close>, and \<^verbatim>\<open>FindError\<close> on the outer cursor, walking
  backwards, enters the skipped scope and returns \<open>E2\<close>, the error recorded later, in the
  debug and in the release build, and the same without the call of \<^verbatim>\<open>Accumulate\<close>.
\<close>

theorem FindError_returns_later_inner_error:
  "(let E1 = Error (0, 1) 1 None;
        E2 = Error (5, 6) 2 None;
        b0 = [];
        outer0 = push b0;
        (outer1, b1) = RecordError ExpressionProduction E1 (outer0, b0);
        inner0 = push b1;
        (inner1, b2) = RecordError ExpressionProduction E2 (inner0, b1);
        outer2 = Accumulate outer1 inner1 StandardProductions;
        b3 = [Leaf ExpressionProduction E1, Leaf ExpressionProduction E2,
              Skip ExpressionProduction 1]
    in pop True inner1 b2 = Inr b3 \<and> pop False inner1 b2 = Inr b3
       \<and> \<not> is_valid outer2 ExpressionProduction
       \<and> FindError True outer2 b3 ExpressionProduction = Inr E2
       \<and> FindError False outer2 b3 ExpressionProduction = Inr E2
       \<and> \<not> is_valid outer1 ExpressionProduction
       \<and> FindError True outer1 b3 ExpressionProduction = Inr E2
       \<and> FindError False outer1 b3 ExpressionProduction = Inr E2
       \<and> E2 \<noteq> E1)"
  by (simp add: Let_def push_def RecordError_def Accumulate_def pop_def FindError_def
      FindError_loop.simps is_valid_def is_valid_binding_pattern_def production_defs)

text \<open>
  C5. A nested cursor records a binding-pattern error \<open>E\<close> and is accumulated into the outer
  cursor with the arrow-formal-parameters bit in the mask; \<^verbatim>\<open>Accumulate\<close> sets the outer
  cursor's arrow bit because the inner cursor is not a valid binding pattern. The log holds
  the binding-pattern leaf and the skip of the popped scope, and no entry with the arrow bit.
  \<^verbatim>\<open>FindError\<close> for the arrow production steps over both entries and arrives at
  \<^verbatim>\<open>end == 0\<close>: the debug build fails \<^verbatim>\<open>DCHECK(end > 0)\<close>, the release build reads in
  front of the log.
\<close>

theorem FindError_arrow_runs_past_log_start:
  "(let E = Error (0, 1) 1 None;
        b0 = [];
        outer0 = push b0;
        inner0 = push b0;
        (inner1, b1) = RecordError BindingPatternProduction E (inner0, b0);
        outer1 = Accumulate outer0 inner1 AllProductions;
        b2 = [Leaf BindingPatternProduction E, Skip BindingPatternProduction 1]
    in pop True inner1 b1 = Inr b2 \<and> pop False inner1 b1 = Inr b2
       \<and> \<not> is_valid outer1 ArrowFormalParametersProduction
       \<and> FindError True outer1 b2 ArrowFormalParametersProduction = Inl AssertFailed
       \<and> FindError False outer1 b2 ArrowFormalParametersProduction = Inl OutOfBounds)"
  by (simp add: Let_def push_def RecordError_def Accumulate_def pop_def FindError_def
      FindError_loop.simps is_valid_def is_valid_binding_pattern_def production_defs)

section \<open>The codec: evaluation and bounds\<close>

lemmas codec_consts =
  kCharsPerIndexEntry_def kAsciiCode_def kUnicodeCode_def kFirstBytecode_def kLastBytecode_def
  kMaxTokenLength_def kIntSize_def kMaxNonSurrogateCharCode_def kMaxCharCode_def

lemmas codec_defs =
  AdvanceCursor_loop.simps IsAscii_loop.simps Decode_loop.simps is_ascii_def is_unicode_def
  is_bytecode_def decode_unicode_def uc16_length_def write_as_utf16_def to_unsigned_def
  IndexSize_def ReadIndex_def

lemma with_asserted_lengths_simps [simp]:
  "token_lengths (with_asserted_lengths T) 0 = 1"
  "token_lengths (with_asserted_lengths T) 1 = 1"
  "token_lengths (with_asserted_lengths T) 255 = 9"
  by (simp_all add: with_asserted_lengths_def)

lemma code_zero_one [simp]:
  "\<not> is_bytecode 0" "is_ascii 0" "\<not> is_bytecode 1" "\<not> is_ascii 1"
  by (simp_all add: is_bytecode_def is_ascii_def kFirstBytecode_def kAsciiCode_def)

lemma stream_bytes_simps [simp]:
  "stream_bytes [] = []"
  "stream_bytes (t # ts) = token_bytes t @ stream_bytes ts"
  "stream_bytes (ts @ us) = stream_bytes ts @ stream_bytes us"
  by (simp_all add: stream_bytes_def)

lemma from_unicode_escape_simps [simp]:
  "from_unicode_escape lens [] = []"
  "from_unicode_escape lens (t # ts) =
     replicate (token_units lens t) (is_unicode_escape t) @ from_unicode_escape lens ts"
  by (simp_all add: from_unicode_escape_def)

subsection \<open>The length of a Unicode escape\<close>

text \<open>
  C2. The Unicode escape of the code point U+FFFF is the bytes \<open>01 00 FF FF\<close>.
  \<^verbatim>\<open>uc16_length\<close> tests \<^verbatim>\<open>< kMaxNonSurrogateCharCode\<close> and gives 2 for it, while
  \<^verbatim>\<open>write_as_utf16\<close> tests \<^verbatim>\<open><= kMaxNonSurrogateCharCode\<close> and stores one code unit. So
  \<^verbatim>\<open>AdvanceCursor\<close> counts two characters for the token: advancing by 1 from its start stays
  inside the token, at sub-token offset 1, and only advancing by 2 passes it.
\<close>

theorem uc16_length_at_FFFF:
  "uc16_length 0x00 0xFF 0xFF = 2
   \<and> write_as_utf16 debug True (decode_unicode 0x00 0xFF 0xFF) kMaxTokenLength
       = Inr ([0xFFFF], 1)
   \<and> AdvanceCursor (token_lengths (with_asserted_lengths T)) [1, 0x00, 0xFF, 0xFF]
         \<lparr>byte_offset = 0, sub_token_offset = 0\<rparr> 1
       = Inr \<lparr>byte_offset = 0, sub_token_offset = 1\<rparr>
   \<and> AdvanceCursor (token_lengths (with_asserted_lengths T)) [1, 0x00, 0xFF, 0xFF]
         \<lparr>byte_offset = 0, sub_token_offset = 0\<rparr> 2
       = Inr \<lparr>byte_offset = 4, sub_token_offset = 0\<rparr>"
  by (simp add: AdvanceCursor_def codec_defs codec_consts Let_def)

subsection \<open>The first token of Decode\<close>

lemma write_as_utf16_failure:
  "write_as_utf16 debug wide cp n = Inl e \<Longrightarrow> e \<noteq> UnreachableFirstTokenAscii"
  by (auto simp add: write_as_utf16_def split: if_splits)

lemma Decode_loop_not_first_token_ascii:
  "Decode_loop debug T wide data dest_len data_ptr dest \<noteq> Inl UnreachableFirstTokenAscii"
proof (induction debug T wide data dest_len data_ptr dest rule: Decode_loop.induct)
  case (1 debug T wide data dest_len data_ptr dest)
  note IH = this
  note unfold = Decode_loop.simps [of debug T wide data dest_len data_ptr dest]
  show ?case
  proof (cases "length dest < dest_len")
    case False
    then show ?thesis by (simp add: unfold)
  next
    case room: True
    show ?thesis
    proof (cases "length data \<le> data_ptr")
      case True
      with room show ?thesis by (simp add: unfold)
    next
      case inb: False
      show ?thesis
      proof (cases "is_bytecode (data ! data_ptr)")
        case True
        from IH(1) [OF room inb refl refl refl True] room inb True
        show ?thesis by (simp add: unfold Let_def)
      next
        case nb: False
        show ?thesis
        proof (cases "is_ascii (data ! data_ptr)")
          case asc: True
          show ?thesis
          proof (cases "length data \<le> data_ptr + 1")
            case True
            with room inb nb asc show ?thesis by (simp add: unfold Let_def)
          next
            case False
            from IH(2) [OF room inb refl refl refl nb asc False] room inb nb asc False
            show ?thesis by (simp add: unfold Let_def)
          qed
        next
          case na: False
          show ?thesis
          proof (cases "length data \<le> data_ptr + 1 + 2")
            case True
            with room inb nb na show ?thesis by (simp add: unfold Let_def)
          next
            case pay: False
            let ?w = "write_as_utf16 debug wide
                (decode_unicode (data ! (data_ptr + 1)) (data ! (data_ptr + 1 + 1))
                   (data ! (data_ptr + 1 + 2)))
                (dest_len - length dest)"
            show ?thesis
            proof (cases ?w)
              case (Inl e)
              with write_as_utf16_failure [OF Inl] room inb nb na pay
              show ?thesis by (simp add: unfold Let_def)
            next
              case (Inr b)
              obtain units n where b: "(units, n) = b" by (cases b) simp
              from IH(3) [OF room inb refl refl refl nb na pay Inr b] room inb nb na pay Inr b
              show ?thesis by (auto simp add: unfold Let_def)
            qed
          qed
        qed
      qed
    qed
  qed
qed

lemma Decode_first_token_not_ascii:
  assumes "\<not> is_ascii (data ! byte_offset cursor)"
  shows "Decode_first_token debug T wide data cursor dest_len \<noteq> Inl UnreachableFirstTokenAscii"
proof
  assume f: "Decode_first_token debug T wide data cursor dest_len = Inl UnreachableFirstTokenAscii"
  let ?p = "byte_offset cursor"
  let ?w = "write_as_utf16 debug wide
                (decode_unicode (data ! (?p + 1)) (data ! (?p + 1 + 1)) (data ! (?p + 1 + 2)))
                kMaxTokenLength"
  show False
  proof (cases ?w)
    case (Inl e)
    with write_as_utf16_failure [OF Inl] f assms show False
      by (simp add: Decode_first_token_def Let_def split: if_splits prod.splits)
  next
    case (Inr r)
    with f assms show False
      by (simp add: Decode_first_token_def Let_def split: if_splits prod.splits)
  qed
qed

text \<open>
  C10. A cursor with a sub-token offset above 0 that satisfies the invariant (the offset is
  below the table's length of the code under the cursor), with the table giving the ASCII
  escape the length 1, does not stand on an ASCII escape: the guard \<^verbatim>\<open>is_ascii(code)\<close> of
  the branch marked \<^verbatim>\<open>UNREACHABLE()\<close> in the first phase of \<^verbatim>\<open>Decode\<close> is false, and the
  failure with which the debug build would stop there is not a result of \<^verbatim>\<open>Decode\<close>,
  whatever the build, the width of the destination and its length.
\<close>

theorem Decode_first_token_never_ascii:
  assumes "0 < sub_token_offset cursor"
    and "byte_offset cursor < length data"
    and "sub_token_offset cursor < unat (token_lengths T (data ! byte_offset cursor))"
    and "token_lengths T 0 = 1"
  shows "\<not> is_ascii (data ! byte_offset cursor)
         \<and> Decode debug T wide data cursor dest_len \<noteq> Inl UnreachableFirstTokenAscii"
proof -
  have na: "\<not> is_ascii (data ! byte_offset cursor)"
  proof
    assume "is_ascii (data ! byte_offset cursor)"
    then have "data ! byte_offset cursor = 0"
      by (simp add: is_ascii_def kAsciiCode_def unat_eq_0)
    with assms show False by simp
  qed
  from na have "Decode_first_token debug T wide data cursor dest_len
                \<noteq> Inl UnreachableFirstTokenAscii"
    by (rule Decode_first_token_not_ascii)
  then have "Decode debug T wide data cursor dest_len \<noteq> Inl UnreachableFirstTokenAscii"
    by (auto simp add: Decode_def Decode_loop_not_first_token_ascii split: sum.splits)
  with na show ?thesis by simp
qed

text \<open>
  The theorem at a cursor one character into the token \<^verbatim>\<open>var\<close>: the two code units
  \<^verbatim>\<open>ar\<close> are decoded.
\<close>

theorem Decode_first_token_never_ascii_witness:
  "0 < sub_token_offset \<lparr>byte_offset = 0, sub_token_offset = 1\<rparr>
   \<and> byte_offset \<lparr>byte_offset = 0, sub_token_offset = 1\<rparr> < length [2 :: u8]
   \<and> sub_token_offset \<lparr>byte_offset = 0, sub_token_offset = 1\<rparr>
       < unat (token_lengths example_table
                 ([2] ! byte_offset \<lparr>byte_offset = 0, sub_token_offset = 1\<rparr>))
   \<and> token_lengths example_table 0 = 1
   \<and> \<not> is_ascii ([2] ! byte_offset \<lparr>byte_offset = 0, sub_token_offset = 1\<rparr>)
   \<and> Decode True example_table True [2] \<lparr>byte_offset = 0, sub_token_offset = 1\<rparr> 2
       \<noteq> Inl UnreachableFirstTokenAscii
   \<and> Decode True example_table True [2] \<lparr>byte_offset = 0, sub_token_offset = 1\<rparr> 2
       = Inr [0x61, 0x72]"
proof -
  have h: "0 < sub_token_offset \<lparr>byte_offset = 0, sub_token_offset = 1\<rparr>"
    "byte_offset \<lparr>byte_offset = 0, sub_token_offset = 1\<rparr> < length [2 :: u8]"
    "sub_token_offset \<lparr>byte_offset = 0, sub_token_offset = 1\<rparr>
       < unat (token_lengths example_table
                 ([2] ! byte_offset \<lparr>byte_offset = 0, sub_token_offset = 1\<rparr>))"
    "token_lengths example_table 0 = 1"
    by (simp_all add: example_table_def)
  have v: "Decode True example_table True [2] \<lparr>byte_offset = 0, sub_token_offset = 1\<rparr> 2
           = Inr [0x61, 0x72]"
    by (simp add: Decode_def Decode_first_token_def decode_bytecode_def write_chars_def
        example_table_def codec_defs codec_consts Let_def)
  from Decode_first_token_never_ascii [OF h, of True True 2] h v show ?thesis by simp
qed

subsection \<open>IsAscii on a token stream\<close>

lemma IsAscii_loop_tokens:
  assumes "list_all wf_token toks" and "lens 0 = 1"
    and "chars \<le> int (length (from_unicode_escape lens toks))"
  shows "IsAscii_loop debug lens (pre @ stream_bytes toks @ post) (length pre) chars
         = Inr (True \<notin> set (take (nat chars) (from_unicode_escape lens toks)))"
  using assms
proof (induction toks arbitrary: pre chars)
  case Nil
  then show ?case by (simp add: IsAscii_loop.simps)
next
  case (Cons t ts)
  show ?case
  proof (cases "0 < chars")
    case False
    then show ?thesis by (subst IsAscii_loop.simps) simp
  next
    case pos: True
    show ?thesis
    proof (cases t)
      case (Bytecode code)
      with Cons.prems have bc: "is_bytecode code" by simp
      have "IsAscii_loop debug lens ((pre @ [code]) @ stream_bytes ts @ post)
              (length (pre @ [code])) (chars - int (unat (lens code)))
            = Inr (True \<notin> set (take (nat (chars - int (unat (lens code))))
                                  (from_unicode_escape lens ts)))"
        using Cons.prems Bytecode by (intro Cons.IH) auto
      with pos bc Bytecode show ?thesis
        by (subst IsAscii_loop.simps) (simp add: Let_def nat_diff_distrib')
    next
      case (AsciiEscape b)
      have "IsAscii_loop debug lens ((pre @ [0, b]) @ stream_bytes ts @ post)
              (length (pre @ [0, b])) (chars - 1)
            = Inr (True \<notin> set (take (nat (chars - 1)) (from_unicode_escape lens ts)))"
        using Cons.prems AsciiEscape by (intro Cons.IH) auto
      with pos AsciiEscape Cons.prems(2) show ?thesis
        by (subst IsAscii_loop.simps) (simp add: Let_def nat_diff_distrib' take_Cons')
    next
      case (UnicodeEscape b0 b1 b2)
      with pos show ?thesis
        by (subst IsAscii_loop.simps) (auto simp add: Let_def take_Cons')
    qed
  qed
qed

lemma take_replicate_prefix:
  "sub \<le> u \<Longrightarrow> take sub (replicate u f @ F) = replicate sub f"
  by (simp add: min_def)

lemma range_flags:
  assumes "sub < u" and "0 < len"
  shows "True \<in> set (take (sub + len) (replicate u f @ F))
         \<longleftrightarrow> True \<in> set (take len (drop sub (replicate u f @ F)))"
proof -
  let ?xs = "replicate u f @ F"
  obtain k where k: "u - sub = Suc k" using assms(1) by (cases "u - sub") auto
  obtain l where l: "len = Suc l" using assms(2) by (cases len) auto
  have "take (sub + len) ?xs = take sub ?xs @ take len (drop sub ?xs)"
    by (rule take_add)
  also have "take sub ?xs = replicate sub f"
    using assms(1) by (intro take_replicate_prefix) simp
  finally have split: "take (sub + len) ?xs = replicate sub f @ take len (drop sub ?xs)" .
  have "drop sub ?xs = f # (replicate k f @ F)"
    using assms(1) k by simp
  then have "f \<in> set (take len (drop sub ?xs))"
    using l by simp
  with split show ?thesis by auto
qed

lemma partial_flags:
  assumes "sub < u"
  shows "True \<in> set (take sub (replicate u f @ F)) \<longleftrightarrow> 0 < sub \<and> f"
proof -
  have "take sub (replicate u f @ F) = replicate sub f"
    using assms by (intro take_replicate_prefix) simp
  then show ?thesis by auto
qed

text \<open>
  C7, as the code has it. The data hold a well-formed token stream \<open>toks\<close> from the
  cursor's byte offset on; the cursor satisfies the invariant (its sub-token offset is 0 or
  below the number of code units of its token) and the range of \<open>len\<close> code units from the
  cursor lies within the text of \<open>toks\<close>. For a range that is not empty, \<^verbatim>\<open>IsAscii\<close> is true
  exactly when no Unicode escape contributes a code unit to the range. For an empty range it
  is true exactly when the sub-token offset is 0 or the cursor's token is not a Unicode
  escape: the loop runs while \<^verbatim>\<open>chars + sub_token_offset > 0\<close>, so with an offset above 0
  it looks at the cursor's token even when the range is empty.
\<close>

theorem IsAscii_range:
  assumes "list_all wf_token toks" and "lens 0 = 1"
    and "data = pre @ stream_bytes toks @ post"
    and "byte_offset cursor = length pre"
    and "sub_token_offset cursor = 0
         \<or> (toks \<noteq> [] \<and> sub_token_offset cursor < token_units lens (hd toks))"
    and "sub_token_offset cursor + len \<le> length (from_unicode_escape lens toks)"
  shows "IsAscii debug lens data cursor (int len) =
           Inr (if len = 0
                then sub_token_offset cursor = 0 \<or> \<not> is_unicode_escape (hd toks)
                else True \<notin> set (take len (drop (sub_token_offset cursor)
                                              (from_unicode_escape lens toks))))"
proof -
  let ?sub = "sub_token_offset cursor"
  let ?F = "from_unicode_escape lens toks"
  have "IsAscii_loop debug lens (pre @ stream_bytes toks @ post) (length pre)
          (int len + int ?sub)
        = Inr (True \<notin> set (take (nat (int len + int ?sub)) ?F))"
    using assms(1,2,6) by (intro IsAscii_loop_tokens) auto
  then have walk: "IsAscii debug lens data cursor (int len)
                   = Inr (True \<notin> set (take (?sub + len) ?F))"
    using assms(3,4) by (simp add: IsAscii_def nat_add_distrib add.commute)
  show ?thesis
  proof (cases "?sub = 0")
    case True
    with walk show ?thesis by simp
  next
    case False
    with assms(5) obtain t ts where toks: "toks = t # ts"
      and sub: "?sub < token_units lens t"
      by (cases toks) auto
    have F: "?F = replicate (token_units lens t) (is_unicode_escape t)
                    @ from_unicode_escape lens ts"
      by (simp add: toks)
    have hd: "hd toks = t" by (simp add: toks)
    show ?thesis
    proof (cases "len = 0")
      case True
      have "True \<in> set (take ?sub ?F) \<longleftrightarrow> 0 < ?sub \<and> is_unicode_escape t"
        unfolding F by (rule partial_flags [OF sub])
      with walk True False hd show ?thesis by simp
    next
      case False
      then have "0 < len" by simp
      have "True \<in> set (take (?sub + len) ?F) \<longleftrightarrow> True \<in> set (take len (drop ?sub ?F))"
        unfolding F by (rule range_flags [OF sub \<open>0 < len\<close>])
      with walk False show ?thesis by simp
    qed
  qed
qed

text \<open>
  The theorem on the stream of the token \<^verbatim>\<open>var\<close>, the escape of U+1F600 and the escape of
  \<^verbatim>\<open>a\<close>: the two code units \<^verbatim>\<open>ar\<close> from inside the first token are ASCII, and the empty
  range at the second code unit of the surrogate pair is not.
\<close>

theorem IsAscii_range_witness:
  "IsAscii True (token_lengths example_table) [2, 1, 0x01, 0xF6, 0x00, 0, 0x61]
     \<lparr>byte_offset = 0, sub_token_offset = 1\<rparr> 2 = Inr True
   \<and> IsAscii True (token_lengths example_table) [2, 1, 0x01, 0xF6, 0x00, 0, 0x61]
     \<lparr>byte_offset = 1, sub_token_offset = 1\<rparr> 0 = Inr False"
  using IsAscii_range [of "[Bytecode 2, UnicodeEscape 0x01 0xF6 0x00, AsciiEscape 0x61]"
      "token_lengths example_table" "[2, 1, 0x01, 0xF6, 0x00, 0, 0x61]" "[]" "[]"
      "\<lparr>byte_offset = 0, sub_token_offset = 1\<rparr>" 2 True]
    IsAscii_range [of "[UnicodeEscape 0x01 0xF6 0x00, AsciiEscape 0x61]"
      "token_lengths example_table" "[2, 1, 0x01, 0xF6, 0x00, 0, 0x61]" "[2]" "[]"
      "\<lparr>byte_offset = 1, sub_token_offset = 1\<rparr>" 0 True]
  by (simp add: example_table_def is_bytecode_def decode_unicode_def codec_consts)

text \<open>
  C7 as stated fails on the escape of U+1F600, which decodes to a surrogate pair: for the
  cursor at the second code unit of the pair and the empty range, no Unicode escape
  contributes a code unit to the range, and \<^verbatim>\<open>IsAscii\<close> is false.
\<close>

theorem IsAscii_empty_range_counterexample:
  "IsAscii True (token_lengths example_table) [1, 0x01, 0xF6, 0x00]
     \<lparr>byte_offset = 0, sub_token_offset = 1\<rparr> 0 = Inr False
   \<and> IsAscii False (token_lengths example_table) [1, 0x01, 0xF6, 0x00]
     \<lparr>byte_offset = 0, sub_token_offset = 1\<rparr> 0 = Inr False
   \<and> stream_bytes [UnicodeEscape 0x01 0xF6 0x00] = [1, 0x01, 0xF6, 0x00]
   \<and> token_units (token_lengths example_table) (UnicodeEscape 0x01 0xF6 0x00) = 2
   \<and> True \<notin> set (take 0 (drop 1 (from_unicode_escape (token_lengths example_table)
                                      [UnicodeEscape 0x01 0xF6 0x00])))"
  by (simp add: IsAscii_def IsAscii_loop.simps example_table_def is_bytecode_def is_ascii_def
      decode_unicode_def codec_consts)

subsection \<open>AdvanceCursor on a token stream\<close>

lemma AdvanceCursor_finish:
  "AdvanceCursor lens data cursor chars =
     finish (chars + int (sub_token_offset cursor))
       (AdvanceCursor_loop lens data (chars + int (sub_token_offset cursor))
          (byte_offset cursor) 0 0 0)"
  by (simp add: AdvanceCursor_def finish_def Let_def)

lemma uc16_length_cases: "uc16_length b0 b1 b2 = 1 \<or> uc16_length b0 b1 b2 = 2"
  by (simp add: uc16_length_def)

lemma cursor_units_bound: "cursor_units lens t \<le> 256"
proof (cases t)
  case (AsciiEscape b)
  have "unat (lens 0) < 2 ^ 8" using unsigned_less [of "lens 0", where ?'a = nat] by simp
  with AsciiEscape show ?thesis by simp
next
  case (UnicodeEscape b0 b1 b2)
  have "unat (lens 1) < 2 ^ 8" using unsigned_less [of "lens 1", where ?'a = nat] by simp
  with UnicodeEscape uc16_length_cases [of b0 b1 b2] show ?thesis by auto
next
  case (Bytecode code)
  have "unat (lens code) < 2 ^ 8" using unsigned_less [of "lens code", where ?'a = nat] by simp
  with Bytecode show ?thesis by simp
qed

lemma to_unsigned_small: "0 \<le> i \<Longrightarrow> i < 2 ^ 32 \<Longrightarrow> to_unsigned i = nat i"
  by (simp add: to_unsigned_def)

text \<open>One turn of the loop, over the token at the offset.\<close>

lemma AdvanceCursor_loop_step:
  assumes "wf_token t" and "chars_written < chars"
  shows "AdvanceCursor_loop lens (pre @ token_bytes t @ rest) chars (length pre) chars_written
           prev_byte_offset prev_chars_written
         = AdvanceCursor_loop lens (pre @ token_bytes t @ rest) chars
             (length pre + length (token_bytes t))
             (chars_written + int (cursor_units lens t)) (length pre) chars_written"
proof (cases t)
  case (AsciiEscape b)
  with assms show ?thesis
    by (subst AdvanceCursor_loop.simps) (simp add: Let_def)
next
  case (UnicodeEscape b0 b1 b2)
  have "1 \<le> uc16_length b0 b1 b2" using uc16_length_cases [of b0 b1 b2] by auto
  with UnicodeEscape assms show ?thesis
    by (subst AdvanceCursor_loop.simps)
      (simp add: Let_def nth_append algebra_simps eval_nat_numeral)
next
  case (Bytecode code)
  with assms show ?thesis
    by (subst AdvanceCursor_loop.simps) (simp add: Let_def)
qed

lemma AdvanceCursor_loop_done:
  "\<not> chars_written < chars \<Longrightarrow>
   AdvanceCursor_loop lens data chars bo chars_written pbo pcw = Inr (bo, chars_written, pbo, pcw)"
  by (subst AdvanceCursor_loop.simps) simp

lemma AdvanceCursor_loop_tokens:
  assumes "list_all wf_token toks"
    and "chars_written \<le> chars"
    and "chars - chars_written \<le> int (sum_list (map (cursor_units lens) toks))"
  shows "finish chars
           (AdvanceCursor_loop lens (pre @ stream_bytes toks @ post) chars (length pre)
              chars_written prev_byte_offset prev_chars_written)
         = (case seek lens toks (nat (chars - chars_written)) of
              (n, s) \<Rightarrow> Inr \<lparr>byte_offset = length pre + length (stream_bytes (take n toks)),
                            sub_token_offset = s\<rparr>)"
  using assms
proof (induction toks arbitrary: pre chars_written prev_byte_offset prev_chars_written)
  case Nil
  then show ?case by (simp add: AdvanceCursor_loop_done finish_def)
next
  case (Cons t ts)
  let ?u = "cursor_units lens t"
  let ?r = "chars - chars_written"
  show ?case
  proof (cases "chars_written = chars")
    case True
    then show ?thesis by (simp add: AdvanceCursor_loop_done finish_def)
  next
    case False
    with Cons.prems have lt: "chars_written < chars" by simp
    from Cons.prems have wf: "wf_token t" and wfs: "list_all wf_token ts" by simp_all
    have step: "AdvanceCursor_loop lens (pre @ token_bytes t @ stream_bytes ts @ post) chars
                  (length pre) chars_written prev_byte_offset prev_chars_written
                = AdvanceCursor_loop lens (pre @ token_bytes t @ stream_bytes ts @ post) chars
                    (length pre + length (token_bytes t)) (chars_written + int ?u) (length pre)
                    chars_written"
      using AdvanceCursor_loop_step [OF wf lt, of lens pre "stream_bytes ts @ post"
          prev_byte_offset prev_chars_written]
      by simp
    show ?thesis
    proof (cases "?r < int ?u")
      case True
      then have over: "\<not> chars_written + int ?u < chars"
        and ne: "chars_written + int ?u \<noteq> chars"
        by simp_all
      have "?r < 2 ^ 32" using True cursor_units_bound [of lens t] by simp
      with lt have "to_unsigned ?r = nat ?r" by (intro to_unsigned_small) simp_all
      with True lt over ne show ?thesis
        by (simp add: step AdvanceCursor_loop_done finish_def nat_less_iff)
    next
      case False
      then have le: "chars_written + int ?u \<le> chars" by simp
      have rest: "chars - (chars_written + int ?u) \<le> int (sum_list (map (cursor_units lens) ts))"
        using Cons.prems(3) by simp
      have nat: "nat (chars - (chars_written + int ?u)) = nat ?r - ?u"
        by (simp add: nat_diff_distrib' diff_diff_eq)
      have nz: "nat ?r \<noteq> 0" and ge: "\<not> nat ?r < ?u" using lt False by simp_all
      from Cons.IH [OF wfs le rest, of "pre @ token_bytes t" "length pre" chars_written]
      show ?thesis
        using nz ge by (simp add: step nat split: prod.splits)
    qed
  qed
qed

lemma AdvanceCursor_tokens:
  assumes "list_all wf_token toks"
    and "byte_offset cursor = length pre"
    and "sub_token_offset cursor + n \<le> sum_list (map (cursor_units lens) toks)"
  shows "AdvanceCursor lens (pre @ stream_bytes toks @ post) cursor (int n)
         = (case seek lens toks (sub_token_offset cursor + n) of
              (k, s) \<Rightarrow> Inr \<lparr>byte_offset = length pre + length (stream_bytes (take k toks)),
                            sub_token_offset = s\<rparr>)"
proof -
  let ?chars = "int n + int (sub_token_offset cursor)"
  have "finish ?chars
          (AdvanceCursor_loop lens (pre @ stream_bytes toks @ post) ?chars (length pre) 0 0 0)
        = (case seek lens toks (nat (?chars - 0)) of
              (k, s) \<Rightarrow> Inr \<lparr>byte_offset = length pre + length (stream_bytes (take k toks)),
                            sub_token_offset = s\<rparr>)"
    using assms(1,3) by (intro AdvanceCursor_loop_tokens) simp_all
  moreover have "nat (?chars - 0) = sub_token_offset cursor + n" by simp
  ultimately show ?thesis
    using assms(2) by (simp add: AdvanceCursor_finish)
qed

lemma seek_sum:
  assumes "r \<le> sum_list (map (cursor_units lens) toks)" and "seek lens toks r = (k, s)"
  shows "k \<le> length toks \<and> sum_list (map (cursor_units lens) (take k toks)) + s = r"
  using assms
proof (induction toks arbitrary: r k s)
  case Nil
  then show ?case by simp
next
  case (Cons t ts)
  show ?case
  proof (cases "r = 0 \<or> r < cursor_units lens t")
    case True
    with Cons.prems show ?thesis by (auto split: if_splits)
  next
    case False
    then obtain n where n: "seek lens ts (r - cursor_units lens t) = (n, s)" and k: "k = Suc n"
      using Cons.prems(2) by (auto split: prod.splits)
    have "r - cursor_units lens t \<le> sum_list (map (cursor_units lens) ts)"
      using Cons.prems(1) by simp
    from Cons.IH [OF this n] False k show ?thesis by auto
  qed
qed

lemma seek_add:
  assumes "seek lens toks r = (k, s)"
  shows "seek lens toks (r + b)
         = (case seek lens (drop k toks) (s + b) of (k', s') \<Rightarrow> (k + k', s'))"
  using assms
proof (induction toks arbitrary: r k s)
  case Nil
  then show ?case by simp
next
  case (Cons t ts)
  show ?case
  proof (cases "r = 0 \<or> r < cursor_units lens t")
    case True
    with Cons.prems show ?thesis by (auto split: if_splits prod.splits)
  next
    case False
    then obtain n where n: "seek lens ts (r - cursor_units lens t) = (n, s)" and k: "k = Suc n"
      using Cons.prems by (auto split: prod.splits)
    define r' where "r' = r - cursor_units lens t"
    with False have r: "r = r' + cursor_units lens t" by simp
    have step: "seek lens (t # ts) (r + b)
                = (case seek lens ts (r' + b) of (n2, s2) \<Rightarrow> (Suc n2, s2))"
      using False by (auto simp add: r)
    from n have "seek lens ts r' = (n, s)" by (simp add: r'_def)
    from Cons.IH [OF this] have "seek lens ts (r' + b)
        = (case seek lens (drop n ts) (s + b) of (k', s') \<Rightarrow> (n + k', s'))" .
    with step k show ?thesis
      by (simp split: prod.splits)
  qed
qed

text \<open>
  Advancing is additive on every well-formed token stream, in the count of
  \<^verbatim>\<open>AdvanceCursor\<close> itself: from a cursor at a token boundary of the stream, with any
  sub-token offset, advancing by \<open>a\<close> and then by \<open>b\<close> arrives where advancing by \<open>a + b\<close>
  does, as long as the stream has that many characters left. This is the first half of C3.
\<close>

lemma AdvanceCursor_additive:
  assumes wf: "list_all wf_token toks"
    and data: "data = pre @ stream_bytes toks @ post"
    and at: "byte_offset c = length pre"
    and room: "sub_token_offset c + a + b \<le> sum_list (map (cursor_units lens) toks)"
  shows "\<exists>c1 c2. AdvanceCursor lens data c (int a) = Inr c1
               \<and> AdvanceCursor lens data c1 (int b) = Inr c2
               \<and> AdvanceCursor lens data c (int (a + b)) = Inr c2"
proof -
  let ?sub = "sub_token_offset c"
  let ?units = "\<lambda>ts. sum_list (map (cursor_units lens) ts)"
  obtain k s where ks: "seek lens toks (?sub + a) = (k, s)" by (cases "seek lens toks (?sub + a)")
  obtain k' s' where ks': "seek lens (drop k toks) (s + b) = (k', s')"
    by (cases "seek lens (drop k toks) (s + b)")
  let ?c1 = "\<lparr>byte_offset = length pre + length (stream_bytes (take k toks)),
              sub_token_offset = s\<rparr>"
  let ?c2 = "\<lparr>byte_offset = length pre + length (stream_bytes (take (k + k') toks)),
              sub_token_offset = s'\<rparr>"
  have first: "AdvanceCursor lens data c (int a) = Inr ?c1"
    using AdvanceCursor_tokens [OF wf at, of a lens post] room ks data by simp
  have sum: "k \<le> length toks" "?units (take k toks) + s = ?sub + a"
    using seek_sum [OF _ ks] room by simp_all
  have "?units toks = ?units (take k toks) + ?units (drop k toks)"
    by (metis append_take_drop_id map_append sum_list_append)
  with sum room have room': "sub_token_offset ?c1 + b \<le> ?units (drop k toks)" by simp
  have wf': "list_all wf_token (drop k toks)"
    using wf by (metis append_take_drop_id list_all_append)
  have data': "data = (pre @ stream_bytes (take k toks)) @ stream_bytes (drop k toks) @ post"
    using data by (metis append.assoc append_take_drop_id stream_bytes_simps(3))
  have at': "byte_offset ?c1 = length (pre @ stream_bytes (take k toks))" by simp
  have "take (k + k') toks = take k toks @ take k' (drop k toks)"
    by (rule take_add)
  then have len: "length (stream_bytes (take (k + k') toks))
                  = length (stream_bytes (take k toks))
                    + length (stream_bytes (take k' (drop k toks)))"
    by simp
  have second: "AdvanceCursor lens data ?c1 (int b) = Inr ?c2"
    using AdvanceCursor_tokens [OF wf' at' room', of post] ks' len
    by (simp add: data')
  have "seek lens toks (?sub + a + b) = (k + k', s')"
    using seek_add [OF ks, of b] ks' by simp
  then have third: "AdvanceCursor lens data c (int (a + b)) = Inr ?c2"
    using AdvanceCursor_tokens [OF wf at, of "a + b" lens post] room data
    by (simp add: add.assoc)
  from first second third show ?thesis by blast
qed

text \<open>
  With the escapes counted as \<^verbatim>\<open>Encode\<close> asserts, \<^verbatim>\<open>AdvanceCursor\<close> counts at least the
  code units of the decoded text, so the bound of the lemma holds for every range within
  the text.
\<close>

lemma token_units_le_cursor_units:
  assumes "lens 0 = 1" and "lens 1 = 1"
  shows "token_units lens t \<le> cursor_units lens t"
proof (cases t)
  case (UnicodeEscape b0 b1 b2)
  with assms show ?thesis
    by (auto simp add: uc16_length_def)
qed (use assms in simp_all)

lemma text_units_le_cursor_units:
  assumes "lens 0 = 1" and "lens 1 = 1"
  shows "sum_list (map (token_units lens) toks) \<le> sum_list (map (cursor_units lens) toks)"
  by (rule sum_list_mono) (rule token_units_le_cursor_units [OF assms])

lemma AdvanceCursor_additive_in_text:
  assumes "list_all wf_token toks" and "lens 0 = 1" and "lens 1 = 1"
    and "data = pre @ stream_bytes toks @ post"
    and "byte_offset c = length pre"
    and "sub_token_offset c + a + b \<le> sum_list (map (token_units lens) toks)"
  shows "\<exists>c1 c2. AdvanceCursor lens data c (int a) = Inr c1
               \<and> AdvanceCursor lens data c1 (int b) = Inr c2
               \<and> AdvanceCursor lens data c (int (a + b)) = Inr c2"
proof -
  have "sub_token_offset c + a + b \<le> sum_list (map (cursor_units lens) toks)"
    using assms(6) text_units_le_cursor_units [OF assms(2,3), of toks] by simp
  with assms(1,4,5) show ?thesis by (rule AdvanceCursor_additive)
qed

subsection \<open>GetCursor across an index anchor\<close>

lemma seek_replicate:
  assumes "cursor_units lens t = 1"
  shows "m \<le> n \<Longrightarrow> seek lens (replicate n t) m = (m, 0)"
proof (induction n arbitrary: m)
  case 0
  then show ?case by simp
next
  case (Suc n)
  show ?case
  proof (cases m)
    case 0
    then show ?thesis by simp
  next
    case (Suc m')
    with Suc.prems have "m' \<le> n" by simp
    from Suc.IH [OF this] Suc assms show ?thesis by simp
  qed
qed

lemma length_stream_bytes_replicate:
  "length (stream_bytes (replicate n t)) = n * length (token_bytes t)"
  by (induction n) simp_all

lemma units_FFFF:
  "cursor_units (token_lengths (with_asserted_lengths T)) (UnicodeEscape 0x00 0xFF 0xFF) = 2"
  "token_units lens (UnicodeEscape 0x00 0xFF 0xFF) = 1"
  by (simp_all add: uc16_length_def decode_unicode_def kMaxNonSurrogateCharCode_def)

lemma units_0100:
  "cursor_units (token_lengths (with_asserted_lengths T)) (UnicodeEscape 0x00 0x01 0x00) = 1"
  "token_units lens (UnicodeEscape 0x00 0x01 0x00) = 1"
  by (simp_all add: uc16_length_def decode_unicode_def kMaxNonSurrogateCharCode_def)

lemma anchor_advance:
  "AdvanceCursor (token_lengths (with_asserted_lengths T)) anchor_data
     \<lparr>byte_offset = 0, sub_token_offset = 0\<rparr> 1024
   = Inr \<lparr>byte_offset = 4092, sub_token_offset = 0\<rparr>"
proof -
  let ?lens = "token_lengths (with_asserted_lengths T)"
  let ?c = "\<lparr>byte_offset = 0, sub_token_offset = 0\<rparr>"
  have wf: "list_all wf_token anchor_tokens"
    by (simp add: anchor_tokens_def list_all_iff)
  have at: "byte_offset ?c = length ([] :: u8 list)" by simp
  have room: "sub_token_offset ?c + 1024 \<le> sum_list (map (cursor_units ?lens) anchor_tokens)"
    by (simp add: anchor_tokens_def units_FFFF units_0100 sum_list_replicate
        del: cursor_units.simps)
  have "seek ?lens (replicate 1024 (UnicodeEscape 0x00 0x01 0x00)) 1022 = (1022, 0)"
    by (rule seek_replicate) (simp_all add: units_0100 del: cursor_units.simps)
  then have seek: "seek ?lens anchor_tokens 1024 = (1023, 0)"
    by (simp add: anchor_tokens_def units_FFFF del: cursor_units.simps)
  have len: "length (stream_bytes (take 1023 anchor_tokens)) = 4092"
    by (simp add: anchor_tokens_def length_stream_bytes_replicate)
  from AdvanceCursor_tokens [OF wf at room, of "[0x00, 0x10, 0x00, 0x00]"] seek len
  show ?thesis by (simp add: anchor_data_def)
qed

lemma length_anchor_stream: "length (stream_bytes anchor_tokens) = 4100"
  by (simp add: anchor_tokens_def length_stream_bytes_replicate)

lemma AdvanceCursor_zero:
  "AdvanceCursor lens data \<lparr>byte_offset = bo, sub_token_offset = 0\<rparr> 0
   = Inr \<lparr>byte_offset = bo, sub_token_offset = 0\<rparr>"
  by (simp add: AdvanceCursor_def AdvanceCursor_loop.simps)

text \<open>
  C3. The string is U+FFFF followed by 1024 times U+0100, 1025 code units; its stream is
  1025 Unicode escapes, and its index entry for position 1024 is the byte offset 4096 of
  the token that holds the code unit 1024 (the first 1024 tokens have 1024 code units and
  4096 bytes). \<^verbatim>\<open>GetCursor(0)\<close> advanced by 1024 counts two characters for the escape of
  U+FFFF and stops one token early, at the byte offset 4092; \<^verbatim>\<open>GetCursor(1024)\<close> reads the
  index and is at 4096.
\<close>

theorem GetCursor_across_anchor_after_FFFF:
  "GetCursor (token_lengths (with_asserted_lengths T)) anchor_data 0 1025
     = Inr \<lparr>byte_offset = 0, sub_token_offset = 0\<rparr>
   \<and> AdvanceCursor (token_lengths (with_asserted_lengths T)) anchor_data
         \<lparr>byte_offset = 0, sub_token_offset = 0\<rparr> 1024
     = Inr \<lparr>byte_offset = 4092, sub_token_offset = 0\<rparr>
   \<and> GetCursor (token_lengths (with_asserted_lengths T)) anchor_data 1024 1025
     = Inr \<lparr>byte_offset = 4096, sub_token_offset = 0\<rparr>
   \<and> sum_list (map (token_units (token_lengths (with_asserted_lengths T)))
         (take 1024 anchor_tokens)) = 1024
   \<and> length (stream_bytes (take 1024 anchor_tokens)) = 4096"
proof -
  have a: "GetCursor (token_lengths (with_asserted_lengths T)) anchor_data 0 1025
           = Inr \<lparr>byte_offset = 0, sub_token_offset = 0\<rparr>"
    by (simp add: GetCursor_def ReadIndex_def kCharsPerIndexEntry_def AdvanceCursor_zero)
  have idx: "ReadIndex anchor_data 1024 1025 = Inr 4096"
    by (simp add: ReadIndex_def IndexSize_def kCharsPerIndexEntry_def kIntSize_def
        anchor_data_def length_anchor_stream load_unsigned_def)
  have c: "GetCursor (token_lengths (with_asserted_lengths T)) anchor_data 1024 1025
           = Inr \<lparr>byte_offset = 4096, sub_token_offset = 0\<rparr>"
    by (simp add: GetCursor_def idx kCharsPerIndexEntry_def AdvanceCursor_zero)
  have d: "sum_list (map (token_units (token_lengths (with_asserted_lengths T)))
         (take 1024 anchor_tokens)) = 1024"
    by (simp add: anchor_tokens_def units_FFFF units_0100 sum_list_replicate
        del: token_units.simps)
  have e: "length (stream_bytes (take 1024 anchor_tokens)) = 4096"
    by (simp add: anchor_tokens_def length_stream_bytes_replicate)
  from a anchor_advance c d e show ?thesis by simp
qed

subsection \<open>Decode on a token stream\<close>

lemma stream_text_simps [simp]:
  "stream_text T [] = []"
  "stream_text T (t # ts) = token_text T t @ stream_text T ts"
  by (simp_all add: stream_text_def)

lemma write_token:
  assumes "decodable T t"
  shows "Decode_loop debug T True (pre @ token_bytes t @ rest) n (length pre) dest
         = (if length dest < n
            then Decode_loop debug T True (pre @ token_bytes t @ rest) n
                   (length pre + length (token_bytes t))
                   (dest @ take (n - length dest) (token_text T t))
            else Inr dest)"
proof (cases t)
  case (AsciiEscape b)
  then show ?thesis
    by (subst Decode_loop.simps) (simp add: Let_def nth_append)
next
  case (UnicodeEscape b0 b1 b2)
  with assms show ?thesis
    by (subst Decode_loop.simps)
      (auto simp add: Let_def nth_append write_as_utf16_def eval_nat_numeral algebra_simps)
next
  case (Bytecode code)
  with assms show ?thesis
    by (subst Decode_loop.simps)
      (simp add: Let_def decode_bytecode_def write_chars_def take_map)
qed

lemma Decode_loop_done:
  "\<not> length dest < n \<Longrightarrow> Decode_loop debug T wide data n data_ptr dest = Inr dest"
  by (subst Decode_loop.simps) simp

lemma Decode_loop_tokens:
  assumes "list_all (decodable T) toks"
    and "length dest \<le> n"
    and "n - length dest \<le> length (stream_text T toks)"
  shows "Decode_loop debug T True (pre @ stream_bytes toks @ post) n (length pre) dest
         = Inr (dest @ take (n - length dest) (stream_text T toks))"
  using assms
proof (induction toks arbitrary: pre dest)
  case Nil
  then show ?case by (simp add: Decode_loop_done)
next
  case (Cons t ts)
  show ?case
  proof (cases "length dest < n")
    case False
    then show ?thesis by (simp add: Decode_loop_done)
  next
    case True
    let ?w = "take (n - length dest) (token_text T t)"
    from Cons.prems have dec: "decodable T t" and decs: "list_all (decodable T) ts"
      by simp_all
    have step: "Decode_loop debug T True (pre @ token_bytes t @ stream_bytes ts @ post) n
                  (length pre) dest
                = Decode_loop debug T True ((pre @ token_bytes t) @ stream_bytes ts @ post) n
                    (length (pre @ token_bytes t)) (dest @ ?w)"
      using write_token [OF dec, of debug pre "stream_bytes ts @ post" n dest] True by simp
    have len: "length (dest @ ?w) \<le> n" using True by simp
    have room: "n - length (dest @ ?w) \<le> length (stream_text T ts)"
      using Cons.prems(3) by (auto simp add: min_def)
    have "Decode_loop debug T True ((pre @ token_bytes t) @ stream_bytes ts @ post) n
            (length (pre @ token_bytes t)) (dest @ ?w)
          = Inr ((dest @ ?w) @ take (n - length (dest @ ?w)) (stream_text T ts))"
      by (rule Cons.IH [OF decs len room])
    moreover have "n - (length dest + min (length (token_text T t)) (n - length dest))
                   = n - (length dest + length (token_text T t))"
      by (simp add: min_def)
    ultimately show ?thesis
      unfolding stream_bytes_simps stream_text_simps step [symmetric]
      by simp
  qed
qed

lemma Decode_first_token_tokens:
  assumes dec: "decodable T t"
    and last: "unat (token_lengths T 255) = kMaxTokenLength"
    and sub: "0 < sub_token_offset cursor" "sub_token_offset cursor < length (token_text T t)"
    and at: "byte_offset cursor = length pre"
  shows "Decode_first_token debug T True (pre @ token_bytes t @ rest) cursor n
         = Inr (take n (drop (sub_token_offset cursor) (token_text T t)),
                length pre + length (token_bytes t))"
proof (cases t)
  case (AsciiEscape b)
  with sub show ?thesis by simp
next
  case (UnicodeEscape b0 b1 b2)
  with sub have big: "\<not> decode_unicode b0 b1 b2 \<le> kMaxNonSurrogateCharCode"
    and one: "sub_token_offset cursor = 1"
    by (auto split: if_splits)
  from dec UnicodeEscape have "decode_unicode b0 b1 b2 \<le> kMaxCharCode" by simp
  with UnicodeEscape big one last at show ?thesis
    by (simp add: Decode_first_token_def Let_def nth_append write_as_utf16_def
        kMaxTokenLength_def to_unsigned_def min_def take_Cons')
next
  case (Bytecode code)
  let ?tc = "token_chars T code"
  from dec Bytecode have bc: "is_bytecode code" and le: "length ?tc \<le> kMaxTokenLength"
    by simp_all
  from sub Bytecode have s: "sub_token_offset cursor < length ?tc" by simp
  have first: "decode_bytecode T code kMaxTokenLength = (map ucast ?tc, length ?tc)"
    using le by (simp add: decode_bytecode_def write_chars_def)
  have u: "to_unsigned (int (length ?tc) - int (sub_token_offset cursor))
           = length ?tc - sub_token_offset cursor"
    using s le by (simp add: to_unsigned_def kMaxTokenLength_def nat_diff_distrib')
  have copy: "take (if n < length ?tc - sub_token_offset cursor then n
                    else length ?tc - sub_token_offset cursor)
                (drop (sub_token_offset cursor) (map ucast ?tc :: uc16 list))
              = take n (drop (sub_token_offset cursor) (map ucast ?tc))"
    by simp
  from Bytecode bc le s last at first u copy show ?thesis
    by (auto simp add: Decode_first_token_def Let_def nth_append)
qed

text \<open>
  \<^verbatim>\<open>Decode\<close> into a \<^verbatim>\<open>uc16\<close> destination is right on every well-formed token stream: from a
  cursor on a token boundary, with a sub-token offset inside its token, it returns the
  \<open>n\<close> code units of the text from the cursor on, in both builds.
\<close>

lemma Decode_tokens:
  assumes dec: "list_all (decodable T) toks"
    and last: "unat (token_lengths T 255) = kMaxTokenLength"
    and data: "data = pre @ stream_bytes toks @ post"
    and at: "byte_offset cursor = length pre"
    and inv: "sub_token_offset cursor = 0
              \<or> (toks \<noteq> [] \<and> sub_token_offset cursor < length (token_text T (hd toks)))"
    and room: "sub_token_offset cursor + n \<le> length (stream_text T toks)"
  shows "Decode debug T True data cursor n
         = Inr (take n (drop (sub_token_offset cursor) (stream_text T toks)))"
proof (cases "sub_token_offset cursor = 0")
  case True
  have "Decode_loop debug T True (pre @ stream_bytes toks @ post) n (length pre) []
        = Inr ([] @ take (n - length ([] :: uc16 list)) (stream_text T toks))"
    using dec room True by (intro Decode_loop_tokens) simp_all
  with True data at show ?thesis by (simp add: Decode_def)
next
  case False
  with inv obtain t ts where toks: "toks = t # ts"
    and sub: "sub_token_offset cursor < length (token_text T t)"
    by (cases toks) auto
  let ?sub = "sub_token_offset cursor"
  let ?copied = "take n (drop ?sub (token_text T t))"
  from dec toks have d: "decodable T t" and ds: "list_all (decodable T) ts" by simp_all
  from False have pos: "0 < ?sub" by simp
  have first: "Decode_first_token debug T True data cursor n
               = Inr (?copied, length (pre @ token_bytes t))"
    using Decode_first_token_tokens [OF d last pos sub at, of debug "stream_bytes ts @ post" n]
    by (simp add: data toks)
  have len: "length ?copied \<le> n" by simp
  have rest: "n - length ?copied \<le> length (stream_text T ts)"
    using room sub by (auto simp add: toks min_def)
  have loop: "Decode_loop debug T True ((pre @ token_bytes t) @ stream_bytes ts @ post) n
                (length (pre @ token_bytes t)) ?copied
              = Inr (?copied @ take (n - length ?copied) (stream_text T ts))"
    by (rule Decode_loop_tokens [OF ds len rest])
  have "take n (drop ?sub (stream_text T toks))
        = ?copied @ take (n - length ?copied) (stream_text T ts)"
    using sub by (simp add: toks min_def)
  with first loop False show ?thesis
    by (simp add: Decode_def data toks)
qed

subsection \<open>Compress and Decompress\<close>

lemma ucast_byte_le: "(ucast (b :: u8) :: uc16) \<le> 0xFF"
proof -
  have "unat (ucast b :: uc16) = unat b"
    by (simp add: unsigned_ucast_eq take_bit_nat_eq_self_iff)
       (use unsigned_less [of b, where ?'a = nat] in simp)
  moreover have "unat b < 256" using unsigned_less [of b, where ?'a = nat] by simp
  ultimately show ?thesis by (simp add: word_le_nat_alt)
qed

text \<open>No token of any table matches at a code unit above \<open>0xFF\<close>: tokens are bytes.\<close>

lemma no_match_above_FF:
  assumes "0xFF < c"
  shows "\<not> token_matches T (c # cs) code"
proof
  assume m: "token_matches T (c # cs) code"
  then obtain b bs where tc: "token_chars T code = b # bs"
    by (cases "token_chars T code") (auto simp add: token_matches_def)
  with m have "c = ucast b" by (simp add: token_matches_def)
  with ucast_byte_le [of b] assms show False by simp
qed

lemma foldl_better_match_None:
  assumes "\<And>code. \<not> token_matches T input code"
  shows "foldl (better_match T input) None codes = None"
  by (induction codes) (simp_all add: better_match_def assms)

lemma longest_match_above_FF: "0xFF < c \<Longrightarrow> longest_match T (c # cs) = None"
  unfolding longest_match_def by (rule foldl_better_match_None) (rule no_match_above_FF)

lemma Encode_FFFF:
  "Encode T [0xFFFF, 0x0100, 0x0101]
   = ([1, 0x00, 0xFF, 0xFF, 1, 0x00, 0x01, 0x00, 1, 0x00, 0x01, 0x01], [])"
  by (simp add: Encode_def encode_blocks_def block_def kCharsPerIndexEntry_def
      longest_match_above_FF IsLeadSurrogate_def unicode_escape_def)

text \<open>
  C1. The string is the three code units U+FFFF, U+0100, U+0101, which no table has tokens
  for; the release build compresses it to three Unicode escapes. With the cached string
  dropped, \<^verbatim>\<open>Decompress(2, 1)\<close> gives U+0100 where the string has U+0101: \<^verbatim>\<open>GetCursor(2)\<close>
  counts two characters for the escape of U+FFFF and stops at the second token. The whole
  range decodes to the string. The debug build stops in \<^verbatim>\<open>Compress\<close>, at the assertion
  that a cursor advanced by the length of the string is at the end of the stream.
\<close>

theorem Decompress_Compress_after_FFFF:
  "Compress False (with_asserted_lengths T) [0xFFFF, 0x0100, 0x0101]
     = Inr \<lparr>bytes = [1, 0x00, 0xFF, 0xFF, 1, 0x00, 0x01, 0x00, 1, 0x00, 0x01, 0x01],
            char_length = 3, cached_string = Some [0xFFFF, 0x0100, 0x0101]\<rparr>
   \<and> Decompress debug (with_asserted_lengths T)
         \<lparr>bytes = [1, 0x00, 0xFF, 0xFF, 1, 0x00, 0x01, 0x00, 1, 0x00, 0x01, 0x01],
          char_length = 3, cached_string = None\<rparr> 2 1
     = Inr [0x0100]
   \<and> take 1 (drop 2 [0xFFFF, 0x0100, 0x0101 :: uc16]) = [0x0101]
   \<and> Decompress debug (with_asserted_lengths T)
         \<lparr>bytes = [1, 0x00, 0xFF, 0xFF, 1, 0x00, 0x01, 0x00, 1, 0x00, 0x01, 0x01],
          char_length = 3, cached_string = None\<rparr> 0 3
     = Inr [0xFFFF, 0x0100, 0x0101]
   \<and> Compress True (with_asserted_lengths T) [0xFFFF, 0x0100, 0x0101] = Inl AssertFailed"
proof -
  have a: "Compress False (with_asserted_lengths T) [0xFFFF, 0x0100, 0x0101]
     = Inr \<lparr>bytes = [1, 0x00, 0xFF, 0xFF, 1, 0x00, 0x01, 0x00, 1, 0x00, 0x01, 0x01],
            char_length = 3, cached_string = Some [0xFFFF, 0x0100, 0x0101]\<rparr>"
    by (simp add: Compress_def Encode_FFFF)
  have b: "Decompress debug (with_asserted_lengths T)
         \<lparr>bytes = [1, 0x00, 0xFF, 0xFF, 1, 0x00, 0x01, 0x00, 1, 0x00, 0x01, 0x01],
          char_length = 3, cached_string = None\<rparr> 2 1
     = Inr [0x0100]"
    by (simp add: Decompress_def GetCursor_def AdvanceCursor_def IsAscii_def Decode_def
        codec_defs codec_consts Let_def)
  have c: "Decompress debug (with_asserted_lengths T)
         \<lparr>bytes = [1, 0x00, 0xFF, 0xFF, 1, 0x00, 0x01, 0x00, 1, 0x00, 0x01, 0x01],
          char_length = 3, cached_string = None\<rparr> 0 3
     = Inr [0xFFFF, 0x0100, 0x0101]"
    by (simp add: Decompress_def GetCursor_def AdvanceCursor_def IsAscii_def Decode_def
        codec_defs codec_consts Let_def)
  have d: "Compress True (with_asserted_lengths T) [0xFFFF, 0x0100, 0x0101] = Inl AssertFailed"
    by (simp add: Compress_def Encode_FFFF AdvanceCursor_def codec_defs codec_consts Let_def)
  from a b c d show ?thesis by simp
qed

subsection \<open>SubStringEquals\<close>

text \<open>
  Beyond the length of the source, \<^verbatim>\<open>SubStringEquals\<close> is false whatever the bytes and
  the cached string are: the second half of C8.
\<close>

lemma SubStringEquals_beyond_char_length:
  "char_length source < start' + length other \<Longrightarrow>
   SubStringEquals debug T source start' other = Inr False"
  by (simp add: SubStringEquals_def)

text \<open>
  C8. The source of the string U+FFFF, U+0100, U+0101, compared with that string from
  position 0. After the first code unit the cursor is advanced by 1 and stays in the escape
  of U+FFFF, at sub-token offset 1, where the token has one code unit. The debug build fails
  \<^verbatim>\<open>ASSERT(cursor.sub_token_offset() < decoded_chars)\<close> in \<^verbatim>\<open>Decode\<close>. The release build
  copies nothing from the token and decodes the next one, so it reads U+0100 at positions 1
  and 2 and answers false for a string that is equal.
\<close>

theorem SubStringEquals_after_FFFF:
  "SubStringEquals False (with_asserted_lengths T) (ffff_source rest) 0
     [0xFFFF, 0x0100, 0x0101] = Inr False
   \<and> SubStringEquals True (with_asserted_lengths T) (ffff_source rest) 0
     [0xFFFF, 0x0100, 0x0101] = Inl AssertFailed"
  by (simp add: SubStringEquals_def GetCursor_def AdvanceCursor_def Get_def Decode_def
      Decode_first_token_def ffff_source_def codec_defs codec_consts Let_def)

subsection \<open>GetLineNumberSlow\<close>

text \<open>
  A position beyond the length of the source is clamped: the first half of C9.
\<close>

lemma GetLineNumberSlow_clamp:
  "int (char_length source) \<le> pos \<Longrightarrow>
   GetLineNumberSlow debug T source pos
   = GetLineNumberSlow debug T source (int (char_length source))"
  by (auto simp add: GetLineNumberSlow_def)

lemma GetLineNumberSlow_FFFF_release:
  "GetLineNumberSlow False (with_asserted_lengths T) (ffff_source rest) 3 = Inr 0"
  by (simp add: GetLineNumberSlow_def GetCursor_def AdvanceCursor_def Get_def Decode_def
      Decode_first_token_def ffff_source_def codec_defs codec_consts Let_def numeral_3_eq_3)

lemma GetLineNumberSlow_FFFF_debug:
  "GetLineNumberSlow True (with_asserted_lengths T) (ffff_source rest) 3 = Inl AssertFailed"
  by (simp add: GetLineNumberSlow_def GetCursor_def AdvanceCursor_def Get_def Decode_def
      Decode_first_token_def ffff_source_def codec_defs codec_consts Let_def numeral_3_eq_3)

text \<open>
  C9. The source of the string U+FFFF, U+0100, line feed, which has one line feed, at every
  position \<open>4 + k\<close> beyond its length 3, and at 3. The release build reads U+FFFF, then
  U+0100 twice (the cursor stays in the escape of U+FFFF after the first step), never the
  line feed, and returns 0. The debug build fails the assertion of \<^verbatim>\<open>Decode\<close> on the
  sub-token offset.
\<close>

theorem GetLineNumberSlow_after_FFFF:
  "GetLineNumberSlow False (with_asserted_lengths T) (ffff_source rest) (4 + int k) = Inr 0
   \<and> GetLineNumberSlow False (with_asserted_lengths T) (ffff_source rest) 3 = Inr 0
   \<and> GetLineNumberSlow True (with_asserted_lengths T) (ffff_source rest) (4 + int k)
       = Inl AssertFailed
   \<and> char_length (ffff_source rest) = 3
   \<and> count_list [0xFFFF, 0x0100, 0x000A :: uc16] 0x000A = 1"
  using GetLineNumberSlow_clamp [of "ffff_source rest" "4 + int k" False "with_asserted_lengths T"]
    GetLineNumberSlow_clamp [of "ffff_source rest" "4 + int k" True "with_asserted_lengths T"]
    GetLineNumberSlow_FFFF_release [of T rest] GetLineNumberSlow_FFFF_debug [of T rest]
  by (simp add: ffff_source_def)

end
